theory Spec2Isabelle
  imports Main "HOL-Library.Word"
begin

section \<open>The CRTZ dialogue interpreter\<close>

text \<open>
  A shallow embedding of the later of the two interpreter variants of the repository
  (the one with boolean variables, \<open>if ... else\<close> and the debugger). Strings are
  \<open>char list\<close>, a C++ \<open>int\<close> is a \<open>32 word\<close>, the \<open>long long\<close> operand stack of the
  evaluator holds integers that are wrapped to 64 bits after every operation, an
  \<open>unordered_map\<close> is a partial function, and an exception or a trap that ends the
  evaluator is a value of the type \<open>error\<close>.
\<close>

subsection \<open>Characters\<close>

type_synonym int32 = "32 word"

definition isspace :: "char \<Rightarrow> bool" where
  "isspace c = (of_char c = (32 :: nat) \<or> (9 \<le> (of_char c :: nat) \<and> (of_char c :: nat) \<le> 13))"

definition isdigit :: "char \<Rightarrow> bool" where
  "isdigit c = (48 \<le> (of_char c :: nat) \<and> (of_char c :: nat) \<le> 57)"

definition isalpha :: "char \<Rightarrow> bool" where
  "isalpha c =
     ((65 \<le> (of_char c :: nat) \<and> (of_char c :: nat) \<le> 90) \<or>
      (97 \<le> (of_char c :: nat) \<and> (of_char c :: nat) \<le> 122))"

definition isalnum :: "char \<Rightarrow> bool" where
  "isalnum c = (isalpha c \<or> isdigit c)"

text \<open>The continuation characters of an identifier: letters, digits, underscore, dot.\<close>

definition isidchar :: "char \<Rightarrow> bool" where
  "isidchar c = (isalnum c \<or> c = CHR ''_'' \<or> c = CHR ''.'')"

subsection \<open>Expression engine\<close>

definition precedence :: "string \<Rightarrow> nat" where
  "precedence op =
     (if op = ''=='' \<or> op = ''!='' \<or> op = ''<'' \<or> op = ''<='' \<or> op = ''>'' \<or> op = ''>='' then 1
      else if op = ''+'' \<or> op = ''-'' then 2
      else if op = ''*'' \<or> op = ''/'' then 3
      else 0)"

definition isOperator :: "string \<Rightarrow> bool" where
  "isOperator s = (s \<in> set [''+'', ''-'', ''*'', ''/'', ''=='', ''!='', ''<'', ''<='', ''>'', ''>=''])"

text \<open>
  \<open>tokenizeExpr\<close>: the index loop over the string, as a recursion on the rest of the
  string. The test for a one-character symbol is \<open>strchr("+-*/()<>", c)\<close>, which also
  finds the terminating zero byte of the literal, and it comes before the test for a
  number, so a sign is always a token of its own.
\<close>

function tokenizeExpr :: "string \<Rightarrow> string list" where
  "tokenizeExpr [] = []"
| "tokenizeExpr [c] =
     (if isspace c then []
      else if c \<in> set ''+-*/()<>'' \<or> c = CHR 0x00 then [[c]]
      else if isdigit c then [[c]]
      else if isalpha c \<or> c = CHR ''_'' then [[c]]
      else [])"
| "tokenizeExpr (c # d # s) =
     (if isspace c then tokenizeExpr (d # s)
      else if [c, d] = ''<='' \<or> [c, d] = ''>='' \<or> [c, d] = ''=='' \<or> [c, d] = ''!=''
        then [c, d] # tokenizeExpr s
      else if c \<in> set ''+-*/()<>'' \<or> c = CHR 0x00 then [c] # tokenizeExpr (d # s)
      else if isdigit c \<or> ((c = CHR ''-'' \<or> c = CHR ''+'') \<and> isdigit d)
        then (c # takeWhile isdigit (d # s)) # tokenizeExpr (dropWhile isdigit (d # s))
      else if isalpha c \<or> c = CHR ''_''
        then (c # takeWhile isidchar (d # s)) # tokenizeExpr (dropWhile isidchar (d # s))
      else tokenizeExpr (d # s))"
  by pat_completeness auto
termination
proof (relation "measure length")
  fix c d :: char and s :: string
  have le: "length (dropWhile P (d # s)) \<le> Suc (length s)" for P :: "char \<Rightarrow> bool"
    using length_dropWhile_le [of P "d # s"] by (simp del: dropWhile.simps)
  show "(dropWhile isdigit (d # s), c # d # s) \<in> measure length"
    using le [of isdigit] by (simp del: dropWhile.simps)
  show "(dropWhile isidchar (d # s), c # d # s) \<in> measure length"
    using le [of isidchar] by (simp del: dropWhile.simps)
qed simp_all

text \<open>
  \<open>infixToRPN\<close>: the operator stack is a list whose head is \<open>st.back()\<close>; the output
  grows at its end.
\<close>

fun pop_ops :: "string \<Rightarrow> string list \<Rightarrow> string list \<Rightarrow> string list \<times> string list" where
  "pop_ops t [] out = ([], out)"
| "pop_ops t (x # st) out =
     (if isOperator x \<and> precedence x \<ge> precedence t then pop_ops t st (out @ [x])
      else (x # st, out))"

fun pop_to_paren :: "string list \<Rightarrow> string list \<Rightarrow> string list \<times> string list" where
  "pop_to_paren [] out = ([], out)"
| "pop_to_paren (x # st) out =
     (if x \<noteq> ''('' then pop_to_paren st (out @ [x]) else (x # st, out))"

fun rpn_loop :: "string list \<Rightarrow> string list \<Rightarrow> string list \<Rightarrow> string list" where
  "rpn_loop [] st out = out @ st"
| "rpn_loop (t # ts) st out =
     (if t = [] then rpn_loop ts st out
      else if isOperator t then
        (case pop_ops t st out of (st', out') \<Rightarrow> rpn_loop ts (t # st') out')
      else if t = ''('' then rpn_loop ts (t # st) out
      else if t = '')'' then
        (case pop_to_paren st out of
           (st', out') \<Rightarrow> rpn_loop ts (case st' of [] \<Rightarrow> [] | x # r \<Rightarrow> r) out')
      else rpn_loop ts st (out @ [t]))"

definition infixToRPN :: "string list \<Rightarrow> string list" where
  "infixToRPN tokens = rpn_loop tokens [] []"

definition splitDot :: "string \<Rightarrow> string \<times> string" where
  "splitDot s =
     (if CHR ''.'' \<in> set s
      then (takeWhile (\<lambda>c. c \<noteq> CHR ''.'') s, tl (dropWhile (\<lambda>c. c \<noteq> CHR ''.'') s))
      else (s, []))"

text \<open>
  What can end the evaluator instead of a value: the two exceptions of \<open>std::stoll\<close>,
  which nothing in the interpreter catches, and the trap of the division of the least
  \<open>long long\<close> by -1, whose quotient does not fit (the processor raises a division
  error and the interpreter is killed).
\<close>

datatype error = Out_of_range | Invalid_argument | Division_trap

definition digit_val :: "char \<Rightarrow> int" where
  "digit_val c = int (of_char c) - 48"

definition dec_val :: "string \<Rightarrow> int" where
  "dec_val ds = foldl (\<lambda>acc c. acc * 10 + digit_val c) 0 ds"

text \<open>
  \<open>std::stoll\<close> in base 10: leading white space, an optional sign, the longest run of
  digits; no digit at all is \<open>invalid_argument\<close>, a value that does not fit a
  \<open>long long\<close> is \<open>out_of_range\<close>.
\<close>

definition stoll :: "string \<Rightarrow> error + int" where
  "stoll t =
     (let s = dropWhile isspace t;
          neg = (s \<noteq> [] \<and> hd s = CHR ''-'');
          r = (if s \<noteq> [] \<and> (hd s = CHR ''-'' \<or> hd s = CHR ''+'') then tl s else s);
          ds = takeWhile isdigit r;
          v = (if neg then - dec_val ds else dec_val ds)
      in if ds = [] then Inl Invalid_argument
         else if - (2 ^ 63) \<le> v \<and> v < 2 ^ 63 then Inr v
         else Inl Out_of_range)"

text \<open>
  Arithmetic on \<open>long long\<close>: the result of \<open>+\<close>, \<open>-\<close> and \<open>*\<close> wrapped to 64 bits in
  two's complement (the overflowing cases are undefined in C++; this is what the usual
  targets compute). Division truncates towards zero; the divisor 0 is tested for and
  gives 0; the one quotient that does not fit, of the least \<open>long long\<close> by -1, traps.
\<close>

definition wrap64 :: "int \<Rightarrow> int" where
  "wrap64 x = signed_take_bit 63 x"

definition tdiv :: "int \<Rightarrow> int \<Rightarrow> int" where
  "tdiv a b = (if (a < 0) = (b < 0) then \<bar>a\<bar> div \<bar>b\<bar> else - (\<bar>a\<bar> div \<bar>b\<bar>))"

definition b2i :: "bool \<Rightarrow> int" where
  "b2i b = (if b then 1 else 0)"

definition apply_op :: "string \<Rightarrow> int \<Rightarrow> int \<Rightarrow> error + int" where
  "apply_op t a b =
     (if t = ''+'' then Inr (wrap64 (a + b))
      else if t = ''-'' then Inr (wrap64 (a - b))
      else if t = ''*'' then Inr (wrap64 (a * b))
      else if t = ''/'' then
        (if b \<noteq> 0 then
           (if a = - (2 ^ 63) \<and> b = - 1 then Inl Division_trap else Inr (wrap64 (tdiv a b)))
         else Inr 0)
      else if t = ''=='' then Inr (b2i (a = b))
      else if t = ''!='' then Inr (b2i (a \<noteq> b))
      else if t = ''<'' then Inr (b2i (a < b))
      else if t = ''<='' then Inr (b2i (a \<le> b))
      else if t = ''>'' then Inr (b2i (a > b))
      else if t = ''>='' then Inr (b2i (a \<ge> b))
      else Inr 0)"

type_synonym intmap = "string \<rightharpoonup> int32"
type_synonym boolmap = "string \<rightharpoonup> bool"
type_synonym objmap = "string \<rightharpoonup> intmap"

text \<open>The test of \<open>evalRPN\<close> for a token that is read as a number.\<close>

definition numeric_token :: "string \<Rightarrow> bool" where
  "numeric_token t =
     (t \<noteq> [] \<and> (isdigit (t ! 0) \<or>
        ((t ! 0 = CHR ''-'' \<or> t ! 0 = CHR ''+'') \<and> length t > 1 \<and> isdigit (t ! 1))))"

text \<open>The value pushed for a token that is not an operator.\<close>

definition operand :: "string \<Rightarrow> intmap \<Rightarrow> boolmap \<Rightarrow> objmap \<Rightarrow> error + int" where
  "operand t vars boolVars objects =
     (if numeric_token t then stoll t
      else if t = ''true'' then Inr 1
      else if t = ''false'' then Inr 0
      else (case splitDot t of
        (inst, field) \<Rightarrow>
          if field \<noteq> [] then
            (case objects inst of
               None \<Rightarrow> Inr 0
             | Some fs \<Rightarrow> (case fs field of None \<Rightarrow> Inr 0 | Some v \<Rightarrow> Inr (sint v)))
          else
            (case boolVars t of
               Some b \<Rightarrow> Inr (b2i b)
             | None \<Rightarrow> (case vars t of None \<Rightarrow> Inr 0 | Some v \<Rightarrow> Inr (sint v)))))"

text \<open>
  \<open>evalRPN\<close>: the loop over the postfix tokens with the operand stack \<open>st\<close> (head is
  \<open>st.back()\<close>); the result is cast to \<open>int\<close>.
\<close>

fun eval_loop :: "string list \<Rightarrow> int list \<Rightarrow> intmap \<Rightarrow> boolmap \<Rightarrow> objmap \<Rightarrow> error + int32" where
  "eval_loop [] st vars boolVars objects =
     (case st of [] \<Rightarrow> Inr 0 | x # _ \<Rightarrow> Inr (word_of_int x))"
| "eval_loop (t # ts) st vars boolVars objects =
     (if isOperator t then
        (case st of
           b # a # st' \<Rightarrow>
             (case apply_op t a b of
                Inl e \<Rightarrow> Inl e
              | Inr r \<Rightarrow> eval_loop ts (r # st') vars boolVars objects)
         | _ \<Rightarrow> Inr 0)
      else
        (case operand t vars boolVars objects of
           Inl e \<Rightarrow> Inl e
         | Inr v \<Rightarrow> eval_loop ts (v # st) vars boolVars objects))"

definition evalRPN :: "string list \<Rightarrow> intmap \<Rightarrow> boolmap \<Rightarrow> objmap \<Rightarrow> error + int32" where
  "evalRPN rpn vars boolVars objects = eval_loop rpn [] vars boolVars objects"

definition evalExpressionString :: "string \<Rightarrow> intmap \<Rightarrow> boolmap \<Rightarrow> objmap \<Rightarrow> error + int32" where
  "evalExpressionString expr vars boolVars objects =
     evalRPN (infixToRPN (tokenizeExpr expr)) vars boolVars objects"

subsection \<open>String helpers of the runtime\<close>

text \<open>\<open>s.rfind(p, 0) == 0\<close>: the string starts with \<open>p\<close>.\<close>

definition starts_with :: "string \<Rightarrow> string \<Rightarrow> bool" where
  "starts_with p s = (take (length p) s = p)"

text \<open>\<open>s.find(pat)\<close> and \<open>s.find(c)\<close>: the first position, \<open>None\<close> for \<open>npos\<close>.\<close>

fun find_sub :: "string \<Rightarrow> string \<Rightarrow> nat option" where
  "find_sub pat [] = (if pat = [] then Some 0 else None)"
| "find_sub pat (c # s) =
     (if starts_with pat (c # s) then Some 0 else map_option Suc (find_sub pat s))"

fun find_char :: "char \<Rightarrow> string \<Rightarrow> nat option" where
  "find_char c [] = None"
| "find_char c (x # xs) = (if x = c then Some 0 else map_option Suc (find_char c xs))"

text \<open>\<open>s.rfind(c)\<close>: the last position.\<close>

definition rfind_char :: "char \<Rightarrow> string \<Rightarrow> nat option" where
  "rfind_char c s =
     (case find_char c (rev s) of None \<Rightarrow> None | Some k \<Rightarrow> Some (length s - 1 - k))"

definition trim :: "string \<Rightarrow> string" where
  "trim s = rev (dropWhile isspace (rev (dropWhile isspace s)))"

text \<open>\<open>std::to_string\<close> of an \<open>int\<close>, also what \<open>cout << v\<close> writes.\<close>

definition digit_char :: "nat \<Rightarrow> char" where
  "digit_char d = char_of (48 + d)"

function digits_of :: "nat \<Rightarrow> string" where
  "digits_of n = (if n < 10 then [digit_char n] else digits_of (n div 10) @ [digit_char (n mod 10)])"
  by pat_completeness auto
termination
  by (relation "measure id") auto

declare digits_of.simps [simp del]

definition to_string :: "int \<Rightarrow> string" where
  "to_string i = (if i < 0 then CHR ''-'' # digits_of (nat (- i)) else digits_of (nat i))"

definition nl :: string where
  "nl = [CHR 0x0A]"

definition bool_text :: "bool \<Rightarrow> string" where
  "bool_text b = (if b then ''true'' else ''false'')"

text \<open>
  \<open>splitArgs\<close>: the comma-separated arguments at parenthesis depth 0, each trimmed, the
  empty ones dropped.
\<close>

fun split_loop :: "string \<Rightarrow> int \<Rightarrow> string \<Rightarrow> string list \<Rightarrow> string list" where
  "split_loop [] depth cur out = (if cur \<noteq> [] then out @ [trim cur] else out)"
| "split_loop (c # s) depth cur out =
     (if c = CHR ''('' then split_loop s (depth + 1) (cur @ [c]) out
      else if c = CHR '')'' then split_loop s (depth - 1) (cur @ [c]) out
      else if c = CHR '','' \<and> depth = 0 then split_loop s depth [] (out @ [trim cur])
      else split_loop s depth (cur @ [c]) out)"

definition splitArgs :: "string \<Rightarrow> string list" where
  "splitArgs s = filter (\<lambda>x. x \<noteq> []) (split_loop s 0 [] [])"

subsection \<open>Program model\<close>

record Choice =
  c_id :: int32
  c_text :: string
  c_target :: string

record Node =
  n_name :: string
  n_text :: string
  n_choices :: "Choice list"
  n_actions :: "string list"

record ClassDef =
  cd_name :: string
  cd_fields :: intmap
  cd_methods :: "string \<rightharpoonup> string list"
  cd_methodParams :: "string \<rightharpoonup> string list"

record Room =
  rm_name :: string
  rm_description :: string
  rm_exits :: "string \<rightharpoonup> string"
  rm_items :: "string list"
  rm_npcs :: "string list"

record Program =
  p_npc :: string
  p_desc :: string
  p_vars :: intmap
  p_boolVars :: boolmap
  p_stringVars :: "string \<rightharpoonup> string"
  p_nodes :: "string \<rightharpoonup> Node"
  p_entry :: string
  p_classes :: "string \<rightharpoonup> ClassDef"
  p_objects :: objmap
  p_instanceClass :: "string \<rightharpoonup> string"
  p_rooms :: "string \<rightharpoonup> Room"
  p_currentRoom :: string

text \<open>The program of a new parser: every string and every table empty.\<close>

definition empty_prog :: Program where
  "empty_prog =
     \<lparr>p_npc = [], p_desc = [], p_vars = Map.empty, p_boolVars = Map.empty,
      p_stringVars = Map.empty, p_nodes = Map.empty, p_entry = [], p_classes = Map.empty,
      p_objects = Map.empty, p_instanceClass = Map.empty, p_rooms = Map.empty,
      p_currentRoom = []\<rparr>"

text \<open>\<open>objects[inst][field] = val\<close>: \<open>operator[]\<close> creates the object entry when it is absent.\<close>

definition set_field :: "objmap \<Rightarrow> string \<Rightarrow> string \<Rightarrow> int32 \<Rightarrow> objmap" where
  "set_field objects inst field val =
     objects(inst \<mapsto> (case objects inst of None \<Rightarrow> Map.empty | Some fs \<Rightarrow> fs)(field \<mapsto> val))"

text \<open>The name and the expression of a \<open>SET\<close> or \<open>SIGNAL\<close> action, after its tag.\<close>

definition action_name :: "string \<Rightarrow> string" where
  "action_name rest = takeWhile (\<lambda>c. \<not> isspace c) rest"

definition action_expr :: "string \<Rightarrow> string" where
  "action_expr rest = dropWhile isspace (dropWhile (\<lambda>c. \<not> isspace c) rest)"

text \<open>
  The parts of an \<open>IF\<close> action. \<open>act.substr(3, gpos - 3)\<close> is computed in \<open>size_t\<close>: when
  the first \<open>" GOTO "\<close> starts at position 2 the length wraps around and the condition is
  the whole rest of the action.
\<close>

definition if_cond :: "string \<Rightarrow> nat \<Rightarrow> string" where
  "if_cond act gpos = (if 3 \<le> gpos then take (gpos - 3) (drop 3 act) else drop 3 act)"

definition if_target :: "string \<Rightarrow> string" where
  "if_target rest = (case find_sub '' ELSE '' rest of None \<Rightarrow> rest | Some epos \<Rightarrow> take epos rest)"

definition if_elseTarget :: "string \<Rightarrow> string" where
  "if_elseTarget rest =
     (case find_sub '' ELSE '' rest of None \<Rightarrow> [] | Some epos \<Rightarrow> drop (epos + 6) rest)"

text \<open>
  The parts of a statement \<open>inst.method(args)\<close>: taken when the statement has a dot and,
  after it, an opening parenthesis.
\<close>

definition is_call :: "string \<Rightarrow> bool" where
  "is_call s =
     (case (find_char CHR ''.'' s, find_char CHR ''('' s) of
        (Some dotp, Some paren) \<Rightarrow> dotp < paren
      | _ \<Rightarrow> False)"

definition call_inst :: "string \<Rightarrow> string" where
  "call_inst s = take (the (find_char CHR ''.'' s)) s"

definition call_method :: "string \<Rightarrow> string" where
  "call_method s =
     (let dotp = the (find_char CHR ''.'' s); paren = the (find_char CHR ''('' s)
      in take (paren - (dotp + 1)) (drop (dotp + 1) s))"

definition call_argsraw :: "string \<Rightarrow> string" where
  "call_argsraw s =
     (let paren = the (find_char CHR ''('' s)
      in case rfind_char CHR '')'' s of
           Some rparen \<Rightarrow>
             if paren < rparen then take (rparen - paren - 1) (drop (paren + 1) s)
             else drop (paren + 1) s
         | None \<Rightarrow> drop (paren + 1) s)"

text \<open>The text between the first \<open>(\<close> and the last \<open>)\<close> of a \<open>print\<close> statement, if any.\<close>

definition print_inner :: "string \<Rightarrow> string option" where
  "print_inner s =
     (case (find_char CHR ''('' s, rfind_char CHR '')'' s) of
        (Some p, Some q) \<Rightarrow> if p < q then Some (take (q - p - 1) (drop (p + 1) s)) else None
      | _ \<Rightarrow> None)"

definition quoted :: "string \<Rightarrow> bool" where
  "quoted inner = (2 \<le> length inner \<and> hd inner = CHR 0x22 \<and> last inner = CHR 0x22)"

definition unquote :: "string \<Rightarrow> string" where
  "unquote inner = take (length inner - 2) (drop 1 inner)"

text \<open>Evaluating the argument expressions of a call, in order; the first exception ends it.\<close>

fun eval_args :: "string list \<Rightarrow> intmap \<Rightarrow> boolmap \<Rightarrow> objmap \<Rightarrow> error + int32 list" where
  "eval_args [] vs bs os = Inr []"
| "eval_args (ae # aes) vs bs os =
     (case evalExpressionString ae vs bs os of
        Inl e \<Rightarrow> Inl e
      | Inr v \<Rightarrow> (case eval_args aes vs bs os of Inl e \<Rightarrow> Inl e | Inr vals \<Rightarrow> Inr (v # vals)))"

subsection \<open>Text output\<close>

text \<open>
  The replacement loop for \<open>[@You]\<close>: every occurrence, left to right, the search
  resuming after the inserted name.
\<close>

function replace_you :: "string \<Rightarrow> string \<Rightarrow> string" where
  "replace_you player [] = []"
| "replace_you player (c # s) =
     (if starts_with ''[@You]'' (c # s)
      then ''['' @ player @ '']'' @ replace_you player (drop 5 s)
      else c # replace_you player s)"
  by pat_completeness auto
termination
  by (relation "measure (\<lambda>(p, s). length s)") auto

text \<open>
  The value substituted for \<open>${name}\<close> in a \<open>SHOW\<close> action: a string variable, else a
  boolean variable of the program, else an integer variable of the current scope, else
  an object field, else \<open>0\<close>.
\<close>

definition show_value :: "Program \<Rightarrow> intmap \<Rightarrow> objmap \<Rightarrow> string \<Rightarrow> string" where
  "show_value prog vs os varName =
     (case p_stringVars prog varName of
        Some v \<Rightarrow> v
      | None \<Rightarrow>
         (case p_boolVars prog varName of
            Some b \<Rightarrow> bool_text b
          | None \<Rightarrow>
             (case vs varName of
                Some v \<Rightarrow> to_string (sint v)
              | None \<Rightarrow>
                 (case splitDot varName of
                    (inst, field) \<Rightarrow>
                      (case (if field \<noteq> [] then os inst else None) of
                         None \<Rightarrow> ''0''
                       | Some fs \<Rightarrow>
                          (case fs field of None \<Rightarrow> ''0'' | Some v \<Rightarrow> to_string (sint v)))))))"

text \<open>The value substituted for \<open>${name}\<close> in the text of a node.\<close>

definition text_value :: "intmap \<Rightarrow> boolmap \<Rightarrow> objmap \<Rightarrow> string \<Rightarrow> string" where
  "text_value vs bs os varname =
     (case splitDot varname of
        (inst, field) \<Rightarrow>
          if field \<noteq> [] then
            (case os inst of
               None \<Rightarrow> ''0''
             | Some fs \<Rightarrow> (case fs field of None \<Rightarrow> ''0'' | Some v \<Rightarrow> to_string (sint v)))
          else
            (case bs varname of
               Some b \<Rightarrow> bool_text b
             | None \<Rightarrow> (case vs varname of None \<Rightarrow> ''0'' | Some v \<Rightarrow> to_string (sint v))))"

text \<open>
  The interpolation loop: each \<open>${name}\<close> that has a closing brace is replaced by the
  value of \<open>name\<close>, left to right; the loop stops at a \<open>${\<close> without a closing brace.
  The search resumes behind the inserted value (in the node text one character into
  it, which is the same, as no value is empty or contains a \<open>$\<close>).
\<close>

function interpolate :: "(string \<Rightarrow> string) \<Rightarrow> string \<Rightarrow> string" where
  "interpolate val [] = []"
| "interpolate val (c # s) =
     (if starts_with ''${'' (c # s) then
        (case find_char CHR ''}'' (drop 1 s) of
           None \<Rightarrow> c # s
         | Some k \<Rightarrow> val (take k (drop 1 s)) @ interpolate val (drop (k + 1) (drop 1 s)))
      else c # interpolate val s)"
  by pat_completeness auto
termination
  by (relation "measure (\<lambda>(v, s). length s)") auto

subsection \<open>Method dispatch\<close>

text \<open>
  The state of \<open>executeActionsWithContext\<close>: the program (which a nested method call
  changes), the three tables of the current scope, and what has been written to the
  standard output.
\<close>

record MState =
  m_prog :: Program
  m_vars :: intmap
  m_boolVars :: boolmap
  m_objects :: objmap
  m_out :: string

text \<open>How an action list was left: by its end, by a jump, or by \<open>END\<close>.\<close>

datatype flow = Fall | Jump string | Ended

text \<open>Binding the parameters to the arguments, up to the shorter of the two lists.\<close>

fun bind_params :: "string list \<Rightarrow> int32 list \<Rightarrow> intmap \<Rightarrow> intmap" where
  "bind_params (p # ps) (a # as) m = bind_params ps as (m(p \<mapsto> a))"
| "bind_params _ _ m = m"

text \<open>The write-back of the names of a table that the local scope also binds.\<close>

definition write_back :: "(string \<rightharpoonup> 'a) \<Rightarrow> (string \<rightharpoonup> 'a) \<Rightarrow> (string \<rightharpoonup> 'a)" where
  "write_back global local =
     (\<lambda>k. case global k of
             None \<Rightarrow> None
           | Some v \<Rightarrow> (case local k of None \<Rightarrow> Some v | Some v' \<Rightarrow> Some v'))"

text \<open>
  One pass of the body of an action loop: the loop goes on with a new state, or is left
  (by \<open>break\<close> after a jump, or by \<open>return\<close> at \<open>END\<close>), or an exception leaves
  the interpreter, or the action is a method call, which the loop then performs.
\<close>

datatype 's step = Next 's | Break string 's | Return 's | Thrown error
  | Call string string "int32 list"

text \<open>
  The body of the loop of \<open>executeActionsWithContext\<close>, up to the call of
  \<open>executeMethod\<close>. Messages on the error stream are not modelled.
\<close>

definition contextAction :: "string \<Rightarrow> string \<Rightarrow> MState \<Rightarrow> MState step" where
  "contextAction act thisInstance s =
     (if starts_with ''SET '' act then
        (let name = action_name (drop 4 act); expr = action_expr (drop 4 act)
         in case evalExpressionString expr (m_vars s) (m_boolVars s) (m_objects s) of
              Inl e \<Rightarrow> Thrown e
            | Inr val \<Rightarrow>
               Next (case splitDot name of
                    (inst, field) \<Rightarrow>
                      if field \<noteq> [] then s\<lparr>m_objects := set_field (m_objects s) inst field val\<rparr>
                      else if thisInstance \<noteq> [] \<and>
                              (case m_objects s thisInstance of
                                 None \<Rightarrow> False | Some fs \<Rightarrow> fs name \<noteq> None)
                        then s\<lparr>m_objects := set_field (m_objects s) thisInstance name val\<rparr>
                      else if m_boolVars s name \<noteq> None
                        then s\<lparr>m_boolVars := (m_boolVars s)(name \<mapsto> (val \<noteq> 0))\<rparr>
                      else s\<lparr>m_vars := (m_vars s)(name \<mapsto> val)\<rparr>))
      else if starts_with ''SIGNAL '' act then
        (let name = action_name (drop 7 act); expr = action_expr (drop 7 act)
         in case evalExpressionString expr (m_vars s) (m_boolVars s) (m_objects s) of
              Inl e \<Rightarrow> Thrown e
            | Inr val \<Rightarrow>
               Next (s\<lparr>m_out := m_out s @ ''[SIGNAL] '' @ name @ '' = '' @ to_string (sint val) @ nl\<rparr>))
      else if starts_with ''IF '' act then
        (case find_sub '' GOTO '' act of
           None \<Rightarrow> Next s
         | Some gpos \<Rightarrow>
            (case evalExpressionString (if_cond act gpos)
                    (m_vars s) (m_boolVars s) (m_objects s) of
               Inl e \<Rightarrow> Thrown e
             | Inr res \<Rightarrow>
                if res \<noteq> 0 then Break (if_target (drop (gpos + 6) act)) s
                else if if_elseTarget (drop (gpos + 6) act) \<noteq> []
                  then Break (if_elseTarget (drop (gpos + 6) act)) s
                else Next s))
      else if starts_with ''GOTO '' act then Break (drop 5 act) s
      else if act = ''END'' then Return (s\<lparr>m_out := m_out s @ ''[Dialogue ended]'' @ nl\<rparr>)
      else if starts_with ''STMT '' act then
        (let st = trim (drop 5 act)
         in if is_call st then
              (case eval_args (splitArgs (call_argsraw st))
                      (m_vars s) (m_boolVars s) (m_objects s) of
                 Inl e \<Rightarrow> Thrown e
               | Inr argVals \<Rightarrow> Call (call_inst st) (call_method st) argVals)
            else if starts_with ''print'' st then
              (case print_inner st of
                 None \<Rightarrow> Next s
               | Some inner \<Rightarrow>
                  if quoted inner then Next (s\<lparr>m_out := m_out s @ unquote inner @ nl\<rparr>)
                  else
                    (case evalExpressionString inner (m_vars s) (m_boolVars s) (m_objects s) of
                       Inl e \<Rightarrow> Thrown e
                     | Inr val \<Rightarrow> Next (s\<lparr>m_out := m_out s @ bool_text (val \<noteq> 0) @ nl\<rparr>)))
            else Next s)
      else if starts_with ''SHOW '' act then
        Next (s\<lparr>m_out := m_out s @
              interpolate (show_value (m_prog s) (m_vars s) (m_objects s)) (drop 5 act) @ nl\<rparr>)
      else Next s)"

text \<open>
  \<open>executeActionsWithContext\<close> and \<open>executeMethod\<close>. The first argument bounds the
  depth of nested method calls (a method may call itself without end); \<open>None\<close> means
  that the bound was reached. In \<open>executeMethod\<close> the stores of the loop over the class
  fields into \<open>prog.objects[instanceName]\<close> are left out, since the last statement
  replaces \<open>prog.objects\<close> as a whole by the local copy.
\<close>

fun executeActionsWithContext ::
    "nat \<Rightarrow> string list \<Rightarrow> string \<Rightarrow> string \<Rightarrow> MState \<Rightarrow> (error + flow \<times> MState) option"
  and executeMethod ::
    "nat \<Rightarrow> Program \<Rightarrow> string \<Rightarrow> string \<Rightarrow> int32 list \<Rightarrow> string \<Rightarrow> string
       \<Rightarrow> (error + Program \<times> string) option"
where
  "executeActionsWithContext fuel [] thisInstance playerName s = Some (Inr (Fall, s))"
| "executeActionsWithContext fuel (act # acts) thisInstance playerName s =
     (case contextAction act thisInstance s of
        Next s' \<Rightarrow> executeActionsWithContext fuel acts thisInstance playerName s'
      | Break target s' \<Rightarrow> Some (Inr (Jump target, s'))
      | Return s' \<Rightarrow> Some (Inr (Ended, s'))
      | Thrown e \<Rightarrow> Some (Inl e)
      | Call inst method argVals \<Rightarrow>
         (case executeMethod fuel (m_prog s) inst method argVals playerName (m_out s) of
            None \<Rightarrow> None
          | Some (Inl e) \<Rightarrow> Some (Inl e)
          | Some (Inr (prog', out')) \<Rightarrow>
             executeActionsWithContext fuel acts thisInstance playerName
               (s\<lparr>m_prog := prog', m_out := out'\<rparr>)))"
| "executeMethod 0 prog instanceName methodName argValues playerName out = None"
| "executeMethod (Suc fuel) prog instanceName methodName argValues playerName out =
     (case p_instanceClass prog instanceName of
        None \<Rightarrow> Some (Inr (prog, out))
      | Some cls \<Rightarrow>
         (case p_classes prog cls of
            None \<Rightarrow> Some (Inr (prog, out))
          | Some cdef \<Rightarrow>
             (case cd_methods cdef methodName of
                None \<Rightarrow> Some (Inr (prog, out))
              | Some actions \<Rightarrow>
                 (let paramNames = (case cd_methodParams cdef methodName of
                                      None \<Rightarrow> [] | Some ps \<Rightarrow> ps);
                      localVars = bind_params paramNames argValues (p_vars prog);
                      objects = (case p_objects prog instanceName of
                                   None \<Rightarrow> (p_objects prog)(instanceName \<mapsto> cd_fields cdef)
                                 | Some fs \<Rightarrow> p_objects prog);
                      instanceFieldCopy = (case objects instanceName of
                                             None \<Rightarrow> Map.empty | Some fs \<Rightarrow> fs)
                  in case executeActionsWithContext fuel actions instanceName playerName
                        \<lparr>m_prog = prog, m_vars = instanceFieldCopy ++ localVars,
                         m_boolVars = p_boolVars prog, m_objects = objects, m_out = out\<rparr> of
                       None \<Rightarrow> None
                     | Some (Inl e) \<Rightarrow> Some (Inl e)
                     | Some (Inr (fl, s')) \<Rightarrow>
                        Some (Inr ((m_prog s')\<lparr>
                                 p_vars := write_back (p_vars (m_prog s')) (m_vars s'),
                                 p_boolVars := write_back (p_boolVars (m_prog s')) (m_boolVars s'),
                                 p_objects := m_objects s'\<rparr>, m_out s'))))))"

subsection \<open>The run loop\<close>

text \<open>
  The state of \<open>runProgram\<close>: the program, whose object table the loop uses through a
  reference, its own copies \<open>vars\<close> and \<open>boolVars\<close> of the two variable tables, the
  standard output, and the rest of the standard input. An element of the input is one
  extraction \<open>cin >> sel\<close>: a number, or \<open>None\<close> for text that is not a number (which the
  loop then discards). The debugger is taken to be inactive (no stepping, no
  breakpoint), so that its check does nothing.
\<close>

record RState =
  r_prog :: Program
  r_vars :: intmap
  r_boolVars :: boolmap
  r_out :: string
  r_in :: "int32 option list"

text \<open>The body of the action loop of \<open>runProgram\<close>, up to the call of \<open>executeMethod\<close>.\<close>

definition nodeAction :: "string \<Rightarrow> RState \<Rightarrow> RState step" where
  "nodeAction act s =
     (if starts_with ''SET '' act then
        (let name = action_name (drop 4 act); expr = action_expr (drop 4 act)
         in case evalExpressionString expr (r_vars s) (r_boolVars s) (p_objects (r_prog s)) of
              Inl e \<Rightarrow> Thrown e
            | Inr val \<Rightarrow>
               Next (case splitDot name of
                    (inst, field) \<Rightarrow>
                      if field \<noteq> [] then
                        s\<lparr>r_prog := (r_prog s)\<lparr>p_objects :=
                             set_field (p_objects (r_prog s)) inst field val\<rparr>\<rparr>
                      else if r_boolVars s name \<noteq> None
                        then s\<lparr>r_boolVars := (r_boolVars s)(name \<mapsto> (val \<noteq> 0))\<rparr>
                      else s\<lparr>r_vars := (r_vars s)(name \<mapsto> val)\<rparr>))
      else if starts_with ''SIGNAL '' act then
        (let name = action_name (drop 7 act); expr = action_expr (drop 7 act)
         in case evalExpressionString expr (r_vars s) (r_boolVars s) (p_objects (r_prog s)) of
              Inl e \<Rightarrow> Thrown e
            | Inr val \<Rightarrow>
               Next (s\<lparr>r_out := r_out s @ ''[SIGNAL] '' @ name @ '' = '' @ bool_text (val \<noteq> 0) @ nl\<rparr>))
      else if starts_with ''IF '' act then
        (case find_sub '' GOTO '' act of
           None \<Rightarrow> Next s
         | Some gpos \<Rightarrow>
            (case evalExpressionString (if_cond act gpos)
                    (r_vars s) (r_boolVars s) (p_objects (r_prog s)) of
               Inl e \<Rightarrow> Thrown e
             | Inr res \<Rightarrow>
                if res \<noteq> 0 then Break (if_target (drop (gpos + 6) act)) s
                else if if_elseTarget (drop (gpos + 6) act) \<noteq> []
                  then Break (if_elseTarget (drop (gpos + 6) act)) s
                else Next s))
      else if starts_with ''GOTO '' act then Break (drop 5 act) s
      else if act = ''END'' then Return (s\<lparr>r_out := r_out s @ ''[Dialogue ended]'' @ nl\<rparr>)
      else if starts_with ''STMT '' act then
        (let st = trim (drop 5 act)
         in if is_call st then
              (case eval_args (splitArgs (call_argsraw st))
                      (r_vars s) (r_boolVars s) (p_objects (r_prog s)) of
                 Inl e \<Rightarrow> Thrown e
               | Inr argVals \<Rightarrow> Call (call_inst st) (call_method st) argVals)
            else if starts_with ''new '' st then
              (let rest = dropWhile isspace (drop 4 st);
                   className = takeWhile (\<lambda>c. \<not> isspace c) rest;
                   instName = takeWhile (\<lambda>c. \<not> isspace c)
                                (dropWhile isspace (dropWhile (\<lambda>c. \<not> isspace c) rest))
               in case p_classes (r_prog s) className of
                    None \<Rightarrow> Next s
                  | Some cdef \<Rightarrow>
                     Next (s\<lparr>r_prog := (r_prog s)\<lparr>
                            p_objects := (p_objects (r_prog s))(instName \<mapsto> cd_fields cdef),
                            p_instanceClass := (p_instanceClass (r_prog s))(instName \<mapsto> className)\<rparr>\<rparr>))
            else if starts_with ''print('' st then
              (case print_inner st of
                 None \<Rightarrow> Next s
               | Some inner \<Rightarrow>
                  if quoted inner then Next (s\<lparr>r_out := r_out s @ unquote inner @ nl\<rparr>)
                  else
                    (case evalExpressionString inner
                            (r_vars s) (r_boolVars s) (p_objects (r_prog s)) of
                       Inl e \<Rightarrow> Thrown e
                     | Inr val \<Rightarrow> Next (s\<lparr>r_out := r_out s @ bool_text (val \<noteq> 0) @ nl\<rparr>)))
            else Next s)
      else if starts_with ''SHOW '' act then
        Next (s\<lparr>r_out := r_out s @
              interpolate (show_value (r_prog s) (r_vars s) (p_objects (r_prog s))) (drop 5 act) @ nl\<rparr>)
      else Next s)"

text \<open>
  The action loop of a node without choices. Its first argument bounds the depth of
  the method calls.
\<close>

fun nodeActions ::
    "nat \<Rightarrow> string list \<Rightarrow> string \<Rightarrow> RState \<Rightarrow> (error + flow \<times> RState) option" where
  "nodeActions fuel [] playerName s = Some (Inr (Fall, s))"
| "nodeActions fuel (act # acts) playerName s =
     (case nodeAction act s of
        Next s' \<Rightarrow> nodeActions fuel acts playerName s'
      | Break target s' \<Rightarrow> Some (Inr (Jump target, s'))
      | Return s' \<Rightarrow> Some (Inr (Ended, s'))
      | Thrown e \<Rightarrow> Some (Inl e)
      | Call inst method argVals \<Rightarrow>
         (case executeMethod fuel (r_prog s) inst method argVals playerName (r_out s) of
            None \<Rightarrow> None
          | Some (Inl e) \<Rightarrow> Some (Inl e)
          | Some (Inr (prog', out')) \<Rightarrow>
             nodeActions fuel acts playerName (s\<lparr>r_prog := prog', r_out := out'\<rparr>)))"

text \<open>Writing the choices of a node, one per line.\<close>

fun render_choices :: "string \<Rightarrow> Choice list \<Rightarrow> string" where
  "render_choices playerName [] = []"
| "render_choices playerName (c # cs) =
     ''['' @ to_string (sint (c_id c)) @ ''] '' @ replace_you playerName (c_text c) @ nl
       @ render_choices playerName cs"

text \<open>
  The selection loop: it prompts until an extracted number is the id of a choice, and
  takes the first choice with that id. At the end of the input every further
  extraction fails and the loop of the source never ends: \<open>None\<close>.
\<close>

fun select_choice :: "Choice list \<Rightarrow> int32 option list \<Rightarrow> string \<Rightarrow> (string \<times> int32 option list \<times> string) option" where
  "select_choice cs [] out = None"
| "select_choice cs (None # inp) out = select_choice cs inp (out @ ''Choose: '' @ ''Invalid'' @ nl)"
| "select_choice cs (Some sel # inp) out =
     (case find (\<lambda>c. c_id c = sel) cs of
        Some c \<Rightarrow> Some (c_target c, inp, out @ ''Choose: '')
      | None \<Rightarrow> select_choice cs inp (out @ ''Choose: '' @ ''Invalid choice'' @ nl))"

text \<open>Writing the text of a node, if it has one, with the player name and the values put in.\<close>

definition show_text :: "string \<Rightarrow> Node \<Rightarrow> RState \<Rightarrow> RState" where
  "show_text playerName node s =
     (if n_text node \<noteq> [] then
        s\<lparr>r_out := r_out s @
            interpolate (text_value (r_vars s) (r_boolVars s) (p_objects (r_prog s)))
              (replace_you playerName (n_text node)) @ nl\<rparr>
      else s)"

text \<open>
  The \<open>while (true)\<close> loop of \<open>runProgram\<close> over the current node. The first argument
  bounds the number of node visits (a dialogue may cycle for ever) and the depth of
  method calls; \<open>None\<close> means that the run did not return within it.
\<close>

fun runNodes :: "nat \<Rightarrow> string \<Rightarrow> string \<Rightarrow> RState \<Rightarrow> (error + RState) option" where
  "runNodes 0 current playerName s = None"
| "runNodes (Suc fuel) current playerName s =
     (case p_nodes (r_prog s) current of
        None \<Rightarrow> Some (Inr s)
      | Some node \<Rightarrow>
         (let s1 = show_text playerName node s
          in if n_choices node \<noteq> [] then
               (case select_choice (n_choices node) (r_in s1)
                       (r_out s1 @ render_choices playerName (n_choices node)) of
                  None \<Rightarrow> None
                | Some (target, inp, out) \<Rightarrow>
                   runNodes fuel target playerName (s1\<lparr>r_out := out, r_in := inp\<rparr>))
             else
               (case nodeActions fuel (n_actions node) playerName s1 of
                  None \<Rightarrow> None
                | Some (Inl e) \<Rightarrow> Some (Inl e)
                | Some (Inr (Jump target, s2)) \<Rightarrow> runNodes fuel target playerName s2
                | Some (Inr (Ended, s2)) \<Rightarrow> Some (Inr s2)
                | Some (Inr (Fall, s2)) \<Rightarrow>
                   Some (Inr (s2\<lparr>r_out := r_out s2 @ ''[End of Conversation]'' @ nl\<rparr>)))))"

definition runProgram :: "nat \<Rightarrow> Program \<Rightarrow> string \<Rightarrow> int32 option list \<Rightarrow> (error + RState) option" where
  "runProgram fuel prog playerName inp =
     runNodes fuel (p_entry prog) playerName
       \<lparr>r_prog = prog, r_vars = p_vars prog, r_boolVars = p_boolVars prog,
        r_out = (if p_npc prog \<noteq> [] then ''Npc: '' @ p_npc prog @ nl else []) @
                (if p_desc prog \<noteq> [] then ''Description: '' @ p_desc prog @ nl @ nl else []),
        r_in = inp\<rparr>"

subsection \<open>Lexer\<close>

datatype TokenKind =
  TK_EOF | TK_IDENT | TK_NUMBER | TK_STRING | TK_SYM | TK_STRING_DEC | TK_TRUE | TK_FALSE
  | TK_PICTURE | TK_LOAD

text \<open>A token; its line number, which only the diagnostics and the debugger read, is left out.\<close>

record Token =
  tk_kind :: TokenKind
  tk_text :: string
  tk_number :: int32

definition mk_token :: "TokenKind \<Rightarrow> string \<Rightarrow> Token" where
  "mk_token k t = \<lparr>tk_kind = k, tk_text = t, tk_number = 0\<rparr>"

text \<open>\<open>std::stoi\<close> inside \<open>try\<close>: a number that does not fit an \<open>int\<close> becomes 0.\<close>

definition stoi_or_zero :: "string \<Rightarrow> int32" where
  "stoi_or_zero num =
     (let v = (if num \<noteq> [] \<and> hd num = CHR ''-'' then - dec_val (tl num) else dec_val num)
      in if - (2 ^ 31) \<le> v \<and> v < 2 ^ 31 then word_of_int v else 0)"

text \<open>
  The body of a double-quoted string, after the opening quote: the text and the rest of
  the source. \<open>peek()\<close> is the zero character at the end of the source, so both loops
  also stop at a zero character in it.
\<close>

fun dq_body :: "string \<Rightarrow> string \<Rightarrow> string \<times> string" where
  "dq_body [] out = (out, [])"
| "dq_body [c] out =
     (if c = CHR 0x00 then (out, [c])
      else if c = CHR 0x22 then (out, [])
      else (out @ [c], []))"
| "dq_body (c # d # s) out =
     (if c = CHR 0x00 then (out, c # d # s)
      else if c = CHR 0x5C \<and> d = CHR 0x22 then dq_body s (out @ [CHR 0x22])
      else if c = CHR 0x22 then (out, d # s)
      else if c = CHR 0x5C \<and> d \<noteq> CHR 0x00
        then dq_body s (out @ [if d = CHR ''n'' then CHR 0x0A else d])
      else dq_body (d # s) (out @ [c]))"

text \<open>The body of a single-quoted string, up to but not including the closing quote.\<close>

fun sq_body :: "string \<Rightarrow> string \<Rightarrow> string \<times> string" where
  "sq_body [] out = (out, [])"
| "sq_body [c] out =
     (if c = CHR 0x00 \<or> c = CHR 0x27 then (out, [c]) else (out @ [c], []))"
| "sq_body (c # d # s) out =
     (if c = CHR 0x00 \<or> c = CHR 0x27 then (out, c # d # s)
      else if c = CHR 0x5C \<and> d \<noteq> CHR 0x00
        then sq_body s (out @ [if d = CHR ''n'' then CHR 0x0A else d])
      else sq_body (d # s) (out @ [c]))"

definition ident_kind :: "string \<Rightarrow> TokenKind" where
  "ident_kind ident =
     (if ident = ''true'' then TK_TRUE
      else if ident = ''false'' then TK_FALSE
      else if ident = ''picture'' then TK_PICTURE
      else if ident = ''load'' then TK_LOAD
      else TK_IDENT)"

text \<open>\<open>Lexer::next\<close> on the rest of the source: the token and the new rest.\<close>

function lex_next :: "string \<Rightarrow> Token \<times> string" where
  "lex_next s =
     (case dropWhile isspace s of
        [] \<Rightarrow> (mk_token TK_EOF [], [])
      | c # r \<Rightarrow>
         if starts_with ''//'' (c # r)
           then lex_next (dropWhile (\<lambda>x. x \<noteq> CHR 0x00 \<and> x \<noteq> CHR 0x0A) (c # r))
         else if c = CHR 0x22 then
           (case dq_body r [] of (out, rest) \<Rightarrow> (mk_token TK_STRING out, rest))
         else if isalpha c \<or> c = CHR ''_'' then
           (mk_token (ident_kind (takeWhile isidchar (c # r))) (takeWhile isidchar (c # r)),
            dropWhile isidchar (c # r))
         else if isdigit c \<or> (c = CHR ''-'' \<and> r \<noteq> [] \<and> isdigit (hd r)) then
           (let ds = (if c = CHR ''-'' then r else c # r);
                num = (if c = CHR ''-'' then [c] else []) @ takeWhile isdigit ds
            in (\<lparr>tk_kind = TK_NUMBER, tk_text = num, tk_number = stoi_or_zero num\<rparr>,
                dropWhile isdigit ds))
         else if c = CHR 0x27 then
           (case sq_body r [] of
              (out, rest) \<Rightarrow>
                (mk_token TK_STRING_DEC out,
                 if rest \<noteq> [] \<and> hd rest = CHR 0x27 then tl rest else rest))
         else if starts_with ''<='' (c # r) \<or> starts_with ''>='' (c # r) \<or> starts_with ''=='' (c # r)
                 \<or> starts_with ''!='' (c # r) \<or> starts_with ''->'' (c # r)
           then (mk_token TK_SYM (take 2 (c # r)), drop 2 (c # r))
         else (mk_token TK_SYM [c], r))"
  by pat_completeness auto
termination
proof (relation "measure length")
  fix s :: string and c :: char and r :: string
  assume d: "dropWhile isspace s = c # r" and sw: "starts_with ''//'' (c # r)"
  have c: "c = CHR ''/''" using sw by (cases r) (simp_all add: starts_with_def)
  have "length (dropWhile (\<lambda>x. x \<noteq> CHR 0x00 \<and> x \<noteq> CHR 0x0A) r) \<le> length r"
    by (rule length_dropWhile_le)
  moreover have "length (c # r) \<le> length s"
    using length_dropWhile_le [of isspace s] d by simp
  ultimately show "(dropWhile (\<lambda>x. x \<noteq> CHR 0x00 \<and> x \<noteq> CHR 0x0A) (c # r), s) \<in> measure length"
    using c by simp
qed simp

declare lex_next.simps [simp del]

lemma dq_body_length: "length (snd (dq_body s out)) \<le> length s"
  by (induction s out rule: dq_body.induct) (auto simp: le_Suc_eq)

lemma sq_body_length: "length (snd (sq_body s out)) \<le> length s"
  by (induction s out rule: sq_body.induct) (auto simp: le_Suc_eq)

lemma lex_next_shorter:
  "tk_kind (fst (lex_next s)) \<noteq> TK_EOF \<Longrightarrow> length (snd (lex_next s)) < length s"
proof (induction s rule: lex_next.induct)
  case (1 s)
  show ?case
  proof (cases "dropWhile isspace s")
    case Nil
    have "lex_next s = (mk_token TK_EOF [], [])"
      by (subst lex_next.simps) (simp only: Nil list.case)
    then show ?thesis using "1.prems" by (simp add: mk_token_def del: lex_next.simps)
  next
    case (Cons c r)
    have len: "Suc (length r) \<le> length s"
      using length_dropWhile_le [of isspace s] Cons by simp
    show ?thesis
    proof (cases "starts_with ''//'' (c # r)")
      case True
      let ?s' = "dropWhile (\<lambda>x. x \<noteq> CHR 0x00 \<and> x \<noteq> CHR 0x0A) (c # r)"
      have eq: "lex_next s = lex_next ?s'"
        by (subst lex_next.simps) (simp only: Cons list.case True if_True)
      have "length ?s' \<le> length (c # r)" by (rule length_dropWhile_le)
      then have "length ?s' \<le> length s" using len by simp
      moreover have "length (snd (lex_next ?s')) < length ?s'"
        using "1.IH" [OF Cons True] "1.prems" eq by (simp del: lex_next.simps)
      ultimately show ?thesis using eq by (simp del: lex_next.simps)
    next
      case False
      have dq: "length (snd (dq_body r [])) \<le> length r" by (rule dq_body_length)
      have sq: "length (snd (sq_body r [])) \<le> length r" by (rule sq_body_length)
      have d1: "length (dropWhile isidchar r) \<le> length r" by (rule length_dropWhile_le)
      have d2: "length (dropWhile isdigit r) \<le> length r" by (rule length_dropWhile_le)
      have d3: "length (tl (snd (sq_body r []))) \<le> length r" using sq by simp
      have eq: "lex_next s =
         (if c = CHR 0x22 then
           (case dq_body r [] of (out, rest) \<Rightarrow> (mk_token TK_STRING out, rest))
         else if isalpha c \<or> c = CHR ''_'' then
           (mk_token (ident_kind (takeWhile isidchar (c # r))) (takeWhile isidchar (c # r)),
            dropWhile isidchar (c # r))
         else if isdigit c \<or> (c = CHR ''-'' \<and> r \<noteq> [] \<and> isdigit (hd r)) then
           (let ds = (if c = CHR ''-'' then r else c # r);
                num = (if c = CHR ''-'' then [c] else []) @ takeWhile isdigit ds
            in (\<lparr>tk_kind = TK_NUMBER, tk_text = num, tk_number = stoi_or_zero num\<rparr>,
                dropWhile isdigit ds))
         else if c = CHR 0x27 then
           (case sq_body r [] of
              (out, rest) \<Rightarrow>
                (mk_token TK_STRING_DEC out,
                 if rest \<noteq> [] \<and> hd rest = CHR 0x27 then tl rest else rest))
         else if starts_with ''<='' (c # r) \<or> starts_with ''>='' (c # r) \<or> starts_with ''=='' (c # r)
                 \<or> starts_with ''!='' (c # r) \<or> starts_with ''->'' (c # r)
           then (mk_token TK_SYM (take 2 (c # r)), drop 2 (c # r))
         else (mk_token TK_SYM [c], r))"
        by (subst lex_next.simps) (simp only: Cons list.case False if_False)
      have "length (snd (lex_next s)) \<le> length r"
      proof (cases "c = CHR 0x22")
        case True
        then have "snd (lex_next s) = snd (dq_body r [])"
          unfolding eq by (simp split: prod.splits)
        then show ?thesis using dq by simp
      next
        case nq: False
        show ?thesis
        proof (cases "isalpha c \<or> c = CHR ''_''")
          case True
          then have "isidchar c" by (auto simp: isidchar_def isalnum_def)
          then have "snd (lex_next s) = dropWhile isidchar r"
            unfolding eq using nq True by simp
          then show ?thesis using d1 by simp
        next
          case na: False
          show ?thesis
          proof (cases "isdigit c \<or> (c = CHR ''-'' \<and> r \<noteq> [] \<and> isdigit (hd r))")
            case True
            have "\<not> isdigit CHR ''-''" by (simp add: isdigit_def)
            then have "snd (lex_next s) = dropWhile isdigit r"
              unfolding eq using nq na True by (auto simp: Let_def)
            then show ?thesis using d2 by simp
          next
            case nd: False
            show ?thesis
            proof (cases "c = CHR 0x27")
              case True
              then have "snd (lex_next s) =
                  (if snd (sq_body r []) \<noteq> [] \<and> hd (snd (sq_body r [])) = CHR 0x27
                   then tl (snd (sq_body r [])) else snd (sq_body r []))"
                unfolding eq using nq na nd by (simp split: prod.splits)
              then show ?thesis using sq d3 by simp
            next
              case ns: False
              have "snd (lex_next s) = drop 2 (c # r) \<or> snd (lex_next s) = r"
                unfolding eq using nq na nd ns by (simp only: if_False) (simp split: if_splits)
              then show ?thesis by auto
            qed
          qed
        qed
      qed
      then show ?thesis using len by simp
    qed
  qed
qed

text \<open>
  The parser pulls one token at a time and the lexer does not depend on the parser, so
  the parser is modelled on the list of the tokens before the end of the source; the
  current token \<open>tk\<close> is the head of the list, and \<open>TK_EOF\<close> when the list is empty.
\<close>

function tokens :: "string \<Rightarrow> Token list" where
  "tokens s =
     (if tk_kind (fst (lex_next s)) = TK_EOF then []
      else fst (lex_next s) # tokens (snd (lex_next s)))"
  by pat_completeness auto
termination
  by (relation "measure length") (auto simp: lex_next_shorter)

declare tokens.simps [simp del]

subsection \<open>Parser: nodes and classes\<close>

definition cur :: "Token list \<Rightarrow> Token" where
  "cur ts = (case ts of [] \<Rightarrow> mk_token TK_EOF [] | t # _ \<Rightarrow> t)"

definition is_sym :: "Token list \<Rightarrow> string \<Rightarrow> bool" where
  "is_sym ts x = (tk_kind (cur ts) = TK_SYM \<and> tk_text (cur ts) = x)"

definition is_kind :: "Token list \<Rightarrow> TokenKind \<Rightarrow> bool" where
  "is_kind ts k = (tk_kind (cur ts) = k)"

definition is_ident :: "Token list \<Rightarrow> string \<Rightarrow> bool" where
  "is_ident ts x = (tk_kind (cur ts) = TK_IDENT \<and> tk_text (cur ts) = x)"

text \<open>\<open>consume\<close> and \<open>expectSym\<close> (whose message is not modelled).\<close>

definition consume :: "Token list \<Rightarrow> Token list" where
  "consume ts = tl ts"

definition expectSym :: "string \<Rightarrow> Token list \<Rightarrow> Token list" where
  "expectSym x ts = (if is_sym ts x then consume ts else ts)"

text \<open>
  The loops that gather the text of the tokens up to a closing symbol, without any
  separator between them.
\<close>

fun capture :: "string list \<Rightarrow> Token list \<Rightarrow> string \<Rightarrow> string \<times> Token list" where
  "capture stops [] acc = (acc, [])"
| "capture stops (t # ts) acc =
     (if tk_kind t = TK_SYM \<and> tk_text t \<in> set stops then (acc, t # ts)
      else capture stops ts (acc @ tk_text t))"

text \<open>The further strings of \<open>show "a", "b", ...\<close>.\<close>

fun show_more :: "Token list \<Rightarrow> string list \<Rightarrow> string list \<times> Token list" where
  "show_more [] acc = (acc, [])"
| "show_more [t] acc =
     (if tk_kind t = TK_SYM \<and> tk_text t = '','' then (acc, []) else (acc, [t]))"
| "show_more (t # u # ts) acc =
     (if tk_kind t = TK_SYM \<and> tk_text t = '','' then
        (if tk_kind u = TK_STRING then show_more ts (acc @ [tk_text u]) else (acc, u # ts))
      else (acc, t # u # ts))"

text \<open>
  One pass of the loop over the body of a node in \<open>parseNode\<close>, for a current token
  that is neither \<open>}\<close> nor the end of the source.
\<close>

definition node_member :: "Token list \<Rightarrow> Node \<Rightarrow> Token list \<times> Node" where
  "node_member ts node =
     (if is_kind ts TK_IDENT then
        (let kw = tk_text (cur ts); ts1 = consume ts in
         if kw = ''line'' then
           (if is_kind ts1 TK_STRING
              then (expectSym '';'' (consume ts1), node\<lparr>n_text := tk_text (cur ts1)\<rparr>)
            else (expectSym '';'' ts1, node))
         else if kw = ''show'' then
           (if is_kind ts1 TK_STRING then
              (case show_more (consume ts1) [tk_text (cur ts1)] of
                 (showTexts, ts2) \<Rightarrow>
                   (expectSym '';'' ts2,
                    node\<lparr>n_actions := n_actions node @ map (\<lambda>t. ''SHOW '' @ t) showTexts\<rparr>))
            else (ts1, node))
         else if kw = ''choice'' then
           (if is_kind ts1 TK_NUMBER then
              (let ts2 = expectSym '':'' (consume ts1) in
               if is_kind ts2 TK_STRING then
                 (let ts3 = consume ts2;
                      ts4 = (if is_sym ts3 ''->'' then consume ts3
                             else if is_sym ts3 ''-''
                               then (if is_sym (consume ts3) [] then consume (consume ts3)
                                     else consume ts3)
                             else ts3)
                  in if is_kind ts4 TK_IDENT then
                       (expectSym '';'' (consume ts4),
                        node\<lparr>n_choices := n_choices node @
                          [\<lparr>c_id = tk_number (cur ts1), c_text = tk_text (cur ts2),
                            c_target = tk_text (cur ts4)\<rparr>]\<rparr>)
                     else (ts4, node))
               else (ts2, node))
            else (consume ts1, node))
         else if kw = ''set'' then
           (let name = (if is_kind ts1 TK_IDENT then tk_text (cur ts1) else []);
                ts2 = (if is_kind ts1 TK_IDENT then consume ts1 else ts1);
                ts3 = (if is_sym ts2 ''='' then consume ts2 else ts2)
            in case capture ['';''] ts3 [] of
                 (expr, ts4) \<Rightarrow>
                   (expectSym '';'' ts4,
                    node\<lparr>n_actions := n_actions node @ [''SET '' @ name @ '' '' @ expr]\<rparr>))
         else if kw = ''signal'' then
           (if is_kind ts1 TK_IDENT then
              (let ts2 = consume ts1;
                   ts3 = (if is_sym ts2 ''='' then consume ts2 else ts2)
               in case capture ['';''] ts3 [] of
                    (expr, ts4) \<Rightarrow>
                      (expectSym '';'' ts4,
                       node\<lparr>n_actions := n_actions node @
                         [''SIGNAL '' @ tk_text (cur ts1) @ '' '' @ expr]\<rparr>))
            else (ts1, node))
         else if kw = ''if'' then
           (let ts2 = (if is_sym ts1 ''('' then consume ts1 else ts1) in
            case capture ['')''] ts2 [] of
              (cond, ts3) \<Rightarrow>
                (let ts4 = expectSym '')'' ts3;
                     ts5 = (if is_ident ts4 ''goto'' then consume ts4 else ts4)
                 in if is_kind ts5 TK_IDENT then
                      (let target = tk_text (cur ts5);
                           ts6 = consume ts5;
                           ts7 = (if is_ident ts6 ''else'' then
                                    (if is_ident (consume ts6) ''goto''
                                       then consume (consume ts6) else consume ts6)
                                  else ts6);
                           elseTarget = (if is_ident ts6 ''else'' \<and> is_kind ts7 TK_IDENT
                                           then tk_text (cur ts7) else []);
                           ts8 = (if is_ident ts6 ''else'' \<and> is_kind ts7 TK_IDENT
                                    then consume ts7 else ts7)
                       in (expectSym '';'' ts8,
                           node\<lparr>n_actions := n_actions node @
                             [''IF '' @ cond @ '' GOTO '' @ target @
                                (if elseTarget = [] then [] else '' ELSE '' @ elseTarget)]\<rparr>))
                    else (ts5, node)))
         else if kw = ''goto'' then
           (if is_kind ts1 TK_IDENT
              then (expectSym '';'' (consume ts1),
                    node\<lparr>n_actions := n_actions node @ [''GOTO '' @ tk_text (cur ts1)]\<rparr>)
            else (ts1, node))
         else if kw = ''end'' then
           (expectSym '';'' ts1, node\<lparr>n_actions := n_actions node @ [''END'']\<rparr>)
         else
           (case capture ['';''] ts [] of
              (stmt, ts2) \<Rightarrow>
                (if is_sym ts2 '';'' then consume ts2 else ts2,
                 if trim stmt \<noteq> []
                   then node\<lparr>n_actions := n_actions node @ [''STMT '' @ trim stmt]\<rparr>
                 else node)))
      else (consume ts, node))"

lemma capture_length: "length (snd (capture stops ts acc)) \<le> length ts"
  by (induction ts arbitrary: acc) (auto simp: le_Suc_eq)

lemma capture_stops:
  "snd (capture stops ts acc) = [] \<or>
   (tk_kind (hd (snd (capture stops ts acc))) = TK_SYM \<and>
    tk_text (hd (snd (capture stops ts acc))) \<in> set stops)"
  by (induction ts arbitrary: acc) auto

lemma capture_moves:
  assumes "ts \<noteq> []" "\<not> (tk_kind (hd ts) = TK_SYM \<and> tk_text (hd ts) \<in> set stops)"
  shows "length (snd (capture stops ts acc)) < length ts"
proof -
  obtain t r where ts: "ts = t # r" using assms(1) by (cases ts) auto
  then have "capture stops ts acc = capture stops r (acc @ tk_text t)" using assms(2) by auto
  then show ?thesis using capture_length [of stops r "acc @ tk_text t"] ts by simp
qed

lemma show_more_length: "length (snd (show_more ts acc)) \<le> length ts"
  by (induction ts acc rule: show_more.induct) (auto simp: le_Suc_eq)

lemma expectSym_length: "length (expectSym x ts) \<le> length ts"
  by (simp add: expectSym_def consume_def)

lemma consume_length: "ts \<noteq> [] \<Longrightarrow> length (consume ts) < length ts"
  by (cases ts) (simp_all add: consume_def)

lemma consume_length_le: "length (consume ts) \<le> length ts"
  by (simp add: consume_def)

lemma shrink_consume: "length x \<le> n \<Longrightarrow> length (consume x) \<le> n"
  by (simp add: consume_def)

lemma shrink_expectSym: "length x \<le> n \<Longrightarrow> length (expectSym y x) \<le> n"
  by (auto simp: expectSym_def consume_def)

lemma shrink_capture: "length x \<le> n \<Longrightarrow> length (snd (capture stops x acc)) \<le> n"
  using capture_length [of stops x acc] by simp

lemma shrink_show_more: "length x \<le> n \<Longrightarrow> length (snd (show_more x acc)) \<le> n"
  using show_more_length [of x acc] by simp

lemma shrink_ident_capture:
  assumes "is_kind ts TK_IDENT" "ts \<noteq> []"
  shows "length (snd (capture stops ts acc)) \<le> length (consume ts)"
proof -
  have "\<not> (tk_kind (hd ts) = TK_SYM \<and> tk_text (hd ts) \<in> set stops)"
    using assms by (cases ts) (auto simp: is_kind_def cur_def)
  then have "length (snd (capture stops ts acc)) < length ts"
    using capture_moves assms(2) by blast
  then show ?thesis using assms(2) by (cases ts) (auto simp: consume_def)
qed

lemmas shrinks = shrink_consume shrink_expectSym shrink_capture shrink_show_more

lemma node_member_shorter:
  assumes "ts \<noteq> []"
  shows "length (fst (node_member ts node)) < length ts"
proof -
  have base: "length (consume ts) \<le> length (consume ts)" by simp
  have "length (fst (node_member ts node)) \<le> length (consume ts)"
  proof (cases "is_kind ts TK_IDENT")
    case True
    show ?thesis
      unfolding node_member_def Let_def case_prod_beta
      using True shrink_ident_capture [OF True assms]
      by (simp add: shrinks)
  next
    case False
    then show ?thesis by (simp add: node_member_def)
  qed
  then show ?thesis using assms by (cases ts) (auto simp: consume_def)
qed

text \<open>The loop over the body of a node, and \<open>parseNode\<close> (entered at the keyword \<open>node\<close>).\<close>

function node_loop :: "Token list \<Rightarrow> Node \<Rightarrow> Token list \<times> Node" where
  "node_loop ts node =
     (if ts = [] \<or> is_sym ts ''}'' then (ts, node)
      else node_loop (fst (node_member ts node)) (snd (node_member ts node)))"
  by pat_completeness auto
termination
  by (relation "measure (\<lambda>(ts, node). length ts)")
     (simp_all add: case_prod_beta node_member_shorter)

declare node_loop.simps [simp del]

definition parseNode :: "Token list \<Rightarrow> Program \<Rightarrow> Token list \<times> Program" where
  "parseNode ts prog =
     (let ts1 = consume ts in
      if is_kind ts1 TK_IDENT then
        (let nodename = tk_text (cur ts1);
             ts2 = consume ts1;
             prog1 = (if p_entry prog = [] then prog\<lparr>p_entry := nodename\<rparr> else prog)
         in if \<not> is_sym ts2 ''{'' then (ts2, prog1)
            else
              (case node_loop (consume ts2)
                      \<lparr>n_name = nodename, n_text = [], n_choices = [], n_actions = []\<rparr> of
                 (ts3, node) \<Rightarrow>
                   (expectSym ''}'' ts3,
                    prog1\<lparr>p_nodes := (p_nodes prog1)(nodename \<mapsto> node)\<rparr>)))
      else (consume ts1, prog))"

text \<open>The parameter list of a method, up to the closing parenthesis.\<close>

fun params_loop :: "Token list \<Rightarrow> string list \<Rightarrow> string list \<times> Token list" where
  "params_loop [] acc = (acc, [])"
| "params_loop [t] acc =
     (if tk_kind t = TK_SYM \<and> tk_text t = '')'' then (acc, [t])
      else if tk_kind t = TK_IDENT then (acc @ [tk_text t], [])
      else (acc, []))"
| "params_loop (t # u # ts) acc =
     (if tk_kind t = TK_SYM \<and> tk_text t = '')'' then (acc, t # u # ts)
      else if tk_kind t = TK_IDENT then
        (if tk_kind u = TK_SYM \<and> tk_text u = '','' then params_loop ts (acc @ [tk_text t])
         else params_loop (u # ts) (acc @ [tk_text t]))
      else params_loop (u # ts) acc)"

lemma shrink_params: "length x \<le> n \<Longrightarrow> length (snd (params_loop x acc)) \<le> n"
proof -
  have "length (snd (params_loop x acc)) \<le> length x"
    by (induction x acc rule: params_loop.induct) (auto simp: le_Suc_eq)
  then show "length x \<le> n \<Longrightarrow> length (snd (params_loop x acc)) \<le> n" by simp
qed

text \<open>
  The body of a method: every statement is the text of its tokens, gathered without
  separator up to \<open>;\<close> or \<open>}\<close>, trimmed and stored with the tag \<open>STMT\<close>.
\<close>

function body_loop :: "Token list \<Rightarrow> string list \<Rightarrow> string list \<times> Token list" where
  "body_loop ts acc =
     (if ts = [] \<or> is_sym ts ''}'' then (acc, ts)
      else
        (let stmt = fst (capture ['';'', ''}''] ts []);
             ts1 = snd (capture ['';'', ''}''] ts []);
             acc1 = (if trim stmt \<noteq> [] then acc @ [''STMT '' @ trim stmt] else acc)
         in if is_sym ts1 '';'' then body_loop (consume ts1) acc1
            else body_loop ts1 acc1))"
  by pat_completeness auto
termination
proof (relation "measure (\<lambda>(ts, acc). length ts)")
  show "wf (measure (\<lambda>(ts, acc). length ts))" by simp
next
  fix ts :: "Token list" and acc :: "string list" and x xa xb
  assume n: "\<not> (ts = [] \<or> is_sym ts ''}'')"
    and xa: "xa = snd (capture ['';'', ''}''] ts [])" and s: "is_sym xa '';''"
  have "xa \<noteq> []" using s by (auto simp: is_sym_def cur_def mk_token_def)
  then have "length (consume xa) < length xa" by (rule consume_length)
  moreover have "length xa \<le> length ts" unfolding xa by (rule capture_length)
  ultimately show "((consume xa, xb), ts, acc) \<in> measure (\<lambda>(ts, acc). length ts)" by simp
next
  fix ts :: "Token list" and acc :: "string list" and x xa xb
  assume n: "\<not> (ts = [] \<or> is_sym ts ''}'')"
    and xa: "xa = snd (capture ['';'', ''}''] ts [])" and s: "\<not> is_sym xa '';''"
  have ne: "ts \<noteq> []" using n by simp
  have st: "xa = [] \<or> (tk_kind (hd xa) = TK_SYM \<and> tk_text (hd xa) \<in> set ['';'', ''}''])"
    unfolding xa by (rule capture_stops)
  have "\<not> (tk_kind (hd ts) = TK_SYM \<and> tk_text (hd ts) \<in> set ['';'', ''}''])"
  proof
    assume h: "tk_kind (hd ts) = TK_SYM \<and> tk_text (hd ts) \<in> set ['';'', ''}'']"
    then have "capture ['';'', ''}''] ts [] = ([], ts)" using ne by (cases ts) auto
    then have "xa = ts" using xa by simp
    then show False using h n s ne by (cases ts) (auto simp: is_sym_def cur_def)
  qed
  then have "length xa < length ts" unfolding xa using capture_moves ne by blast
  then show "((xa, xb), ts, acc) \<in> measure (\<lambda>(ts, acc). length ts)" by simp
qed

declare body_loop.simps [simp del]

lemma body_loop_length: "length (snd (body_loop ts acc)) \<le> length ts"
proof (induction ts acc rule: body_loop.induct)
  case (1 ts acc)
  show ?case
  proof (cases "ts = [] \<or> is_sym ts ''}''")
    case True
    then show ?thesis by (subst body_loop.simps) simp
  next
    case False
    let ?ts1 = "snd (capture ['';'', ''}''] ts [])"
    let ?acc1 = "if trim (fst (capture ['';'', ''}''] ts [])) \<noteq> []
       then acc @ [''STMT '' @ trim (fst (capture ['';'', ''}''] ts []))] else acc"
    have c: "length ?ts1 \<le> length ts" by (rule capture_length)
    show ?thesis
    proof (cases "is_sym ?ts1 '';''")
      case True
      have "body_loop ts acc = body_loop (consume ?ts1) ?acc1"
        using False True by (subst body_loop.simps) (simp add: Let_def)
      moreover have "length (snd (body_loop (consume ?ts1) ?acc1)) \<le> length (consume ?ts1)"
        using "1.IH"(1) [OF False refl refl refl True] .
      ultimately show ?thesis using c consume_length_le [of ?ts1] by simp
    next
      case nsym: False
      have "body_loop ts acc = body_loop ?ts1 ?acc1"
        using False nsym by (subst body_loop.simps) (simp add: Let_def)
      moreover have "length (snd (body_loop ?ts1 ?acc1)) \<le> length ?ts1"
        using "1.IH"(2) [OF False refl refl refl nsym] .
      ultimately show ?thesis using c by simp
    qed
  qed
qed

lemma shrink_body: "length x \<le> n \<Longrightarrow> length (snd (body_loop x acc)) \<le> n"
  using body_loop_length [of x acc] by simp

text \<open>
  One pass of the loop over the members of a class in \<open>parseClass\<close>. The initial value
  of a field is evaluated at once, against the global variables and no objects.
\<close>

definition class_member :: "Token list \<Rightarrow> Program \<Rightarrow> ClassDef \<Rightarrow> error + Token list \<times> ClassDef" where
  "class_member ts prog cdef =
     (if is_kind ts TK_IDENT then
        (let ts1 = consume ts in
         if tk_text (cur ts) = ''int'' then
           (if is_kind ts1 TK_IDENT then
              (let fname = tk_text (cur ts1); ts2 = consume ts1 in
               if is_sym ts2 ''='' then
                 (case evalRPN (infixToRPN (tokenizeExpr (fst (capture ['';''] (consume ts2) []))))
                         (p_vars prog) (p_boolVars prog) Map.empty of
                    Inl e \<Rightarrow> Inl e
                  | Inr fval \<Rightarrow>
                     Inr (expectSym '';'' (snd (capture ['';''] (consume ts2) [])),
                          cdef\<lparr>cd_fields := (cd_fields cdef)(fname \<mapsto> fval)\<rparr>))
               else Inr (expectSym '';'' ts2, cdef\<lparr>cd_fields := (cd_fields cdef)(fname \<mapsto> 0)\<rparr>))
            else Inr (consume ts1, cdef))
         else if tk_text (cur ts) = ''void'' then
           (if \<not> is_kind ts1 TK_IDENT then Inr (ts1, cdef)
            else
              (let mname = tk_text (cur ts1);
                   ts3 = consume (consume ts1);
                   params = fst (params_loop ts3 []);
                   ts5 = expectSym '')'' (snd (params_loop ts3 []))
               in if \<not> is_sym ts5 ''{'' then Inr (ts5, cdef)
                  else
                    Inr (expectSym ''}'' (snd (body_loop (consume ts5) [])),
                         cdef\<lparr>cd_methods := (cd_methods cdef)(mname \<mapsto> fst (body_loop (consume ts5) [])),
                              cd_methodParams := (cd_methodParams cdef)(mname \<mapsto> params)\<rparr>)))
         else Inr (ts1, cdef))
      else Inr (consume ts, cdef))"

lemma class_member_shorter:
  assumes "ts \<noteq> []" "class_member ts prog cdef = Inr (ts', cdef')"
  shows "length ts' < length ts"
proof -
  have "length x \<le> length (consume ts)" if "class_member ts prog cdef = Inr (x, y)" for x y
    using that unfolding class_member_def Let_def
    by (auto simp: shrinks shrink_params shrink_body split: if_splits sum.splits
          simp del: body_loop.simps)
  then have "length ts' \<le> length (consume ts)" using assms(2) by blast
  then show ?thesis using assms(1) by (cases ts) (auto simp: consume_def)
qed

function class_loop :: "Token list \<Rightarrow> Program \<Rightarrow> ClassDef \<Rightarrow> error + Token list \<times> ClassDef" where
  "class_loop ts prog cdef =
     (if ts = [] \<or> is_sym ts ''}'' then Inr (ts, cdef)
      else
        (case class_member ts prog cdef of
           Inl e \<Rightarrow> Inl e
         | Inr (ts', cdef') \<Rightarrow> class_loop ts' prog cdef'))"
  by pat_completeness auto
termination
  by (relation "measure (\<lambda>(ts, prog, cdef). length ts)")
     (auto intro: class_member_shorter)

declare class_loop.simps [simp del]

text \<open>\<open>parseClass\<close>, entered at the keyword \<open>class\<close>.\<close>

definition parseClass :: "Token list \<Rightarrow> Program \<Rightarrow> error + Token list \<times> Program" where
  "parseClass ts prog =
     (let ts1 = consume ts in
      if \<not> is_kind ts1 TK_IDENT then Inr (ts1, prog)
      else
        (let className = tk_text (cur ts1); ts2 = consume ts1 in
         if \<not> is_sym ts2 ''{'' then Inr (ts2, prog)
         else
           (case class_loop (consume ts2) prog
                   \<lparr>cd_name = className, cd_fields = Map.empty, cd_methods = Map.empty,
                    cd_methodParams = Map.empty\<rparr> of
              Inl e \<Rightarrow> Inl e
            | Inr (ts3, cdef) \<Rightarrow>
               Inr (expectSym ''}'' ts3,
                    prog\<lparr>p_classes := (p_classes prog)(className \<mapsto> cdef)\<rparr>))))"

text \<open>\<open>parseNewInstance\<close>, entered at the keyword \<open>new\<close>.\<close>

definition parseNewInstance :: "Token list \<Rightarrow> Program \<Rightarrow> Token list \<times> Program" where
  "parseNewInstance ts prog =
     (let ts1 = consume ts in
      if \<not> is_kind ts1 TK_IDENT then (ts1, prog)
      else
        (let className = tk_text (cur ts1); ts2 = consume ts1 in
         if \<not> is_kind ts2 TK_IDENT then (ts2, prog)
         else
           (let instName = tk_text (cur ts2); ts3 = expectSym '';'' (consume ts2) in
            case p_classes prog className of
              None \<Rightarrow> (ts3, prog)
            | Some cdef \<Rightarrow>
               (ts3, prog\<lparr>p_objects := (p_objects prog)(instName \<mapsto> cd_fields cdef),
                          p_instanceClass := (p_instanceClass prog)(instName \<mapsto> className)\<rparr>))))"

lemma node_loop_length: "length (fst (node_loop ts node)) \<le> length ts"
proof (induction ts node rule: node_loop.induct)
  case (1 ts node)
  show ?case
  proof (cases "ts = [] \<or> is_sym ts ''}''")
    case True
    then show ?thesis by (subst node_loop.simps) simp
  next
    case False
    have "node_loop ts node = node_loop (fst (node_member ts node)) (snd (node_member ts node))"
      using False by (subst node_loop.simps) simp
    moreover have "length (fst (node_member ts node)) < length ts"
      using False node_member_shorter by blast
    ultimately show ?thesis using "1.IH" [OF False] by simp
  qed
qed

lemma class_loop_length:
  "class_loop ts prog cdef = Inr (ts', cdef') \<Longrightarrow> length ts' \<le> length ts"
proof (induction ts prog cdef arbitrary: ts' cdef' rule: class_loop.induct)
  case (1 ts prog cdef)
  show ?case
  proof (cases "ts = [] \<or> is_sym ts ''}''")
    case True
    then have "class_loop ts prog cdef = Inr (ts, cdef)"
      by (subst class_loop.simps) (simp only: if_True)
    then show ?thesis using "1.prems" by (simp del: class_loop.simps)
  next
    case False
    have eq: "class_loop ts prog cdef =
        (case class_member ts prog cdef of
           Inl e \<Rightarrow> Inl e
         | Inr (ts', cdef') \<Rightarrow> class_loop ts' prog cdef')"
      by (subst class_loop.simps) (simp only: False if_False)
    obtain ts1 cdef1 where m: "class_member ts prog cdef = Inr (ts1, cdef1)"
      and l: "class_loop ts1 prog cdef1 = Inr (ts', cdef')"
    proof (cases "class_member ts prog cdef")
      case (Inl e)
      then show ?thesis using "1.prems" eq by (simp del: class_loop.simps)
    next
      case (Inr b)
      then show ?thesis using "1.prems" eq that by (cases b) (simp del: class_loop.simps)
    qed
    have "length ts1 < length ts" using class_member_shorter m False by blast
    moreover have "length ts' \<le> length ts1" using "1.IH" [OF False m refl l] .
    ultimately show ?thesis by simp
  qed
qed

text \<open>\<open>parseNpc\<close> and \<open>parseDesc\<close>, entered at their keyword.\<close>

definition parseNpc :: "Token list \<Rightarrow> Program \<Rightarrow> Token list \<times> Program" where
  "parseNpc ts prog =
     (let ts1 = consume ts in
      if is_kind ts1 TK_STRING
        then (expectSym '';'' (consume ts1), prog\<lparr>p_npc := tk_text (cur ts1)\<rparr>)
      else (ts1, prog))"

definition parseDesc :: "Token list \<Rightarrow> Program \<Rightarrow> Token list \<times> Program" where
  "parseDesc ts prog =
     (let ts1 = consume ts in
      if is_kind ts1 TK_STRING
        then (expectSym '';'' (consume ts1), prog\<lparr>p_desc := tk_text (cur ts1)\<rparr>)
      else (ts1, prog))"

text \<open>
  \<open>parseVarDecl\<close>, entered at \<open>int\<close>, \<open>string\<close> or \<open>match\<close>. The initial value of an
  integer variable is evaluated at once, against the variables declared so far.
\<close>

definition parseVarDecl :: "Token list \<Rightarrow> Program \<Rightarrow> error + Token list \<times> Program" where
  "parseVarDecl ts prog =
     (let type = tk_text (cur ts); ts1 = consume ts in
      if is_kind ts1 TK_IDENT then
        (let name = tk_text (cur ts1); ts2 = consume ts1 in
         if is_sym ts2 ''='' then
           (let ts3 = consume ts2 in
            if type = ''string'' then
              (if is_kind ts3 TK_STRING_DEC \<or> is_kind ts3 TK_STRING
                 then Inr (expectSym '';'' (consume ts3),
                           prog\<lparr>p_stringVars := (p_stringVars prog)(name \<mapsto> tk_text (cur ts3))\<rparr>)
               else Inr (ts3, prog))
            else if type = ''match'' then
              (if is_kind ts3 TK_TRUE \<or> is_kind ts3 TK_FALSE
                 then Inr (expectSym '';'' (consume ts3),
                           prog\<lparr>p_boolVars := (p_boolVars prog)(name \<mapsto> is_kind ts3 TK_TRUE)\<rparr>)
               else Inr (ts3, prog))
            else
              (case evalRPN (infixToRPN (tokenizeExpr (fst (capture ['';''] ts3 []))))
                      (p_vars prog) (p_boolVars prog) Map.empty of
                 Inl e \<Rightarrow> Inl e
               | Inr val \<Rightarrow>
                  Inr (expectSym '';'' (snd (capture ['';''] ts3 [])),
                       prog\<lparr>p_vars := (p_vars prog)(name \<mapsto> val)\<rparr>)))
         else
           Inr (expectSym '';'' ts2,
                if type = ''string'' then prog\<lparr>p_stringVars := (p_stringVars prog)(name \<mapsto> [])\<rparr>
                else if type = ''match'' then prog\<lparr>p_boolVars := (p_boolVars prog)(name \<mapsto> False)\<rparr>
                else prog\<lparr>p_vars := (p_vars prog)(name \<mapsto> 0)\<rparr>))
      else Inr (ts1, prog))"

text \<open>One pass of the loop over the body of a room, and \<open>parseRoom\<close>.\<close>

definition room_member :: "Token list \<Rightarrow> Room \<Rightarrow> Token list \<times> Room" where
  "room_member ts room =
     (if is_kind ts TK_IDENT then
        (let kw = tk_text (cur ts); ts1 = consume ts in
         if kw = ''desc'' then
           (if is_kind ts1 TK_STRING
              then (expectSym '';'' (consume ts1), room\<lparr>rm_description := tk_text (cur ts1)\<rparr>)
            else (ts1, room))
         else if kw = ''exit'' then
           (if is_kind ts1 TK_IDENT then
              (if is_kind (consume ts1) TK_IDENT
                 then (expectSym '';'' (consume (consume ts1)),
                       room\<lparr>rm_exits := (rm_exits room)
                              (tk_text (cur ts1) \<mapsto> tk_text (cur (consume ts1)))\<rparr>)
               else (consume ts1, room))
            else (ts1, room))
         else if kw = ''item'' then
           (if is_kind ts1 TK_IDENT
              then (expectSym '';'' (consume ts1),
                    room\<lparr>rm_items := rm_items room @ [tk_text (cur ts1)]\<rparr>)
            else (ts1, room))
         else if kw = ''npc'' then
           (if is_kind ts1 TK_IDENT
              then (expectSym '';'' (consume ts1),
                    room\<lparr>rm_npcs := rm_npcs room @ [tk_text (cur ts1)]\<rparr>)
            else (ts1, room))
         else (ts1, room))
      else (consume ts, room))"

lemma room_member_shorter:
  assumes "ts \<noteq> []"
  shows "length (fst (room_member ts room)) < length ts"
proof -
  have "length (fst (room_member ts room)) \<le> length (consume ts)"
    unfolding room_member_def Let_def by (simp add: shrinks)
  then show ?thesis using assms by (cases ts) (auto simp: consume_def)
qed

function room_loop :: "Token list \<Rightarrow> Room \<Rightarrow> Token list \<times> Room" where
  "room_loop ts room =
     (if ts = [] \<or> is_sym ts ''}'' then (ts, room)
      else room_loop (fst (room_member ts room)) (snd (room_member ts room)))"
  by pat_completeness auto
termination
  by (relation "measure (\<lambda>(ts, room). length ts)")
     (simp_all add: case_prod_beta room_member_shorter)

declare room_loop.simps [simp del]

lemma room_loop_length: "length (fst (room_loop ts room)) \<le> length ts"
proof (induction ts room rule: room_loop.induct)
  case (1 ts room)
  show ?case
  proof (cases "ts = [] \<or> is_sym ts ''}''")
    case True
    then show ?thesis by (subst room_loop.simps) simp
  next
    case False
    have "room_loop ts room = room_loop (fst (room_member ts room)) (snd (room_member ts room))"
      using False by (subst room_loop.simps) simp
    moreover have "length (fst (room_member ts room)) < length ts"
      using False room_member_shorter by blast
    ultimately show ?thesis using "1.IH" [OF False] by simp
  qed
qed

definition parseRoom :: "Token list \<Rightarrow> Program \<Rightarrow> Token list \<times> Program" where
  "parseRoom ts prog =
     (let ts1 = consume ts in
      if \<not> is_kind ts1 TK_IDENT then (ts1, prog)
      else
        (let roomName = tk_text (cur ts1); ts2 = consume ts1 in
         if \<not> is_sym ts2 ''{'' then (ts2, prog)
         else
           (let r = room_loop (consume ts2)
                      \<lparr>rm_name = roomName, rm_description = [], rm_exits = Map.empty,
                       rm_items = [], rm_npcs = []\<rparr>
            in (expectSym ''}'' (fst r),
                prog\<lparr>p_rooms := (p_rooms prog)(roomName \<mapsto> snd r),
                     p_currentRoom := (if p_currentRoom prog = [] then roomName
                                       else p_currentRoom prog)\<rparr>))))"

text \<open>
  \<open>parsePicture\<close>: the declaration \<open>picture name[n] = load("folder");\<close> is read and
  nothing of it is kept in the program.
\<close>

definition parsePicture :: "Token list \<Rightarrow> Token list" where
  "parsePicture ts =
     (let ts1 = consume ts in
      if \<not> is_kind ts1 TK_IDENT then ts1
      else let ts2 = consume ts1 in
      if \<not> is_sym ts2 ''['' then ts2
      else let ts3 = consume ts2 in
      if \<not> is_kind ts3 TK_NUMBER then ts3
      else let ts4 = consume ts3 in
      if \<not> is_sym ts4 '']'' then ts4
      else let ts5 = consume ts4 in
      if \<not> is_sym ts5 ''='' then ts5
      else let ts6 = consume ts5 in
      if \<not> is_kind ts6 TK_LOAD then ts6
      else let ts7 = consume ts6 in
      if \<not> is_sym ts7 ''('' then ts7
      else let ts8 = consume ts7 in
      if \<not> is_kind ts8 TK_STRING then ts8
      else let ts9 = consume ts8 in
      if \<not> is_sym ts9 '')'' then ts9
      else expectSym '';'' (consume ts9))"

text \<open>One pass of the loop of \<open>parse\<close>, for a current token that is not the end.\<close>

definition parse_step :: "Token list \<Rightarrow> Program \<Rightarrow> error + Token list \<times> Program" where
  "parse_step ts prog =
     (if is_kind ts TK_IDENT \<or> is_kind ts TK_PICTURE then
        (let kw = tk_text (cur ts) in
         if kw = ''npc'' then Inr (parseNpc ts prog)
         else if kw = ''desc'' then Inr (parseDesc ts prog)
         else if kw = ''int'' \<or> kw = ''string'' \<or> kw = ''match'' then parseVarDecl ts prog
         else if kw = ''node'' then Inr (parseNode ts prog)
         else if kw = ''class'' then parseClass ts prog
         else if kw = ''new'' then Inr (parseNewInstance ts prog)
         else if kw = ''room'' then Inr (parseRoom ts prog)
         else if is_kind ts TK_PICTURE then Inr (parsePicture ts, prog)
         else Inr (consume ts, prog))
      else Inr (consume ts, prog))"

lemma parse_step_shorter:
  assumes "ts \<noteq> []" "parse_step ts prog = Inr (ts', prog')"
  shows "length ts' < length ts"
proof -
  have c: "length (consume ts) \<le> length (consume ts)" by simp
  have nl: "length (fst (node_loop x n)) \<le> length (consume ts)" if "length x \<le> length (consume ts)" for x n
    using node_loop_length [of x n] that by simp
  have rl: "length (fst (room_loop x n)) \<le> length (consume ts)" if "length x \<le> length (consume ts)" for x n
    using room_loop_length [of x n] that by simp
  have 1: "length (fst (parseNpc ts prog)) \<le> length (consume ts)"
    unfolding parseNpc_def Let_def by (simp add: shrinks)
  have 2: "length (fst (parseDesc ts prog)) \<le> length (consume ts)"
    unfolding parseDesc_def Let_def by (simp add: shrinks)
  have 3: "length x \<le> length (consume ts)" if "parseVarDecl ts prog = Inr (x, y)" for x y
    using that unfolding parseVarDecl_def Let_def
    by (auto simp: shrinks split: if_splits sum.splits)
  have 4: "length (fst (parseNode ts prog)) \<le> length (consume ts)"
    unfolding parseNode_def Let_def case_prod_beta by (simp add: shrinks nl)
  have 5: "length x \<le> length (consume ts)" if "parseClass ts prog = Inr (x, y)" for x y
    using that unfolding parseClass_def Let_def
    by (auto simp: expectSym_def consume_def split: if_splits sum.splits
          dest!: class_loop_length)
  have 6: "length (fst (parseNewInstance ts prog)) \<le> length (consume ts)"
    unfolding parseNewInstance_def Let_def by (simp add: shrinks split: option.splits)
  have 7: "length (fst (parseRoom ts prog)) \<le> length (consume ts)"
    unfolding parseRoom_def Let_def by (simp add: shrinks rl)
  have 8: "length (parsePicture ts) \<le> length (consume ts)"
    unfolding parsePicture_def Let_def by (simp add: shrinks)
  have "length ts' \<le> length (consume ts)"
    using assms(2) 1 2 3 4 5 6 7 8 unfolding parse_step_def Let_def
    by (auto split: if_splits)
  then show ?thesis using assms(1) by (cases ts) (auto simp: consume_def)
qed

text \<open>\<open>parse\<close>, and \<open>runSource\<close> without the debugger.\<close>

function parse :: "Token list \<Rightarrow> Program \<Rightarrow> error + Program" where
  "parse ts prog =
     (if ts = [] then Inr prog
      else
        (case parse_step ts prog of
           Inl e \<Rightarrow> Inl e
         | Inr (ts', prog') \<Rightarrow> parse ts' prog'))"
  by pat_completeness auto
termination
  by (relation "measure (\<lambda>(ts, prog). length ts)") (auto intro: parse_step_shorter)

declare parse.simps [simp del]

definition runSource :: "nat \<Rightarrow> string \<Rightarrow> string \<Rightarrow> int32 option list \<Rightarrow> (error + RState) option" where
  "runSource fuel source playerName inp =
     (case parse (tokens source) empty_prog of
        Inl e \<Rightarrow> Some (Inl e)
      | Inr prog \<Rightarrow> runProgram fuel prog playerName inp)"

section \<open>Reference semantics of expressions\<close>

text \<open>
  The expressions of the specification: decimal literals, parentheses, and the ten
  binary operators in three tiers. The tree of an expression is the one that the
  standard reading gives to its text: the left operand of an operator is of the same
  or a higher tier (association to the left), the right operand of a higher tier, and
  anything may stand in parentheses.
\<close>

datatype binop = Add | Sub | Mul | Div | Eq | Ne | Lt | Le | Gt | Ge

datatype expr = Lit string | Paren expr | Bin binop expr expr

text \<open>The text of an operator and its tier: comparisons 1, additive 2, multiplicative 3.\<close>

fun op_text :: "binop \<Rightarrow> string" where
  "op_text Add = ''+''" | "op_text Sub = ''-''" | "op_text Mul = ''*''" | "op_text Div = ''/''"
| "op_text Eq = ''==''" | "op_text Ne = ''!=''" | "op_text Lt = ''<''" | "op_text Le = ''<=''"
| "op_text Gt = ''>''" | "op_text Ge = ''>=''"

fun tier :: "binop \<Rightarrow> nat" where
  "tier Mul = 3" | "tier Div = 3" | "tier Add = 2" | "tier Sub = 2"
| "tier Eq = 1" | "tier Ne = 1" | "tier Lt = 1" | "tier Le = 1" | "tier Gt = 1" | "tier Ge = 1"

fun level :: "expr \<Rightarrow> nat" where
  "level (Lit ds) = 4" | "level (Paren e) = 4" | "level (Bin op a b) = tier op"

fun well_formed :: "expr \<Rightarrow> bool" where
  "well_formed (Lit ds) = (ds \<noteq> [] \<and> list_all isdigit ds)"
| "well_formed (Paren e) = well_formed e"
| "well_formed (Bin op a b) =
     (well_formed a \<and> well_formed b \<and> tier op \<le> level a \<and> tier op < level b)"

text \<open>The tokens of an expression, and its text with any white space around the tokens.\<close>

fun tokens_of :: "expr \<Rightarrow> string list" where
  "tokens_of (Lit ds) = [ds]"
| "tokens_of (Paren e) = ''('' # tokens_of e @ ['')'']"
| "tokens_of (Bin op a b) = tokens_of a @ [op_text op] @ tokens_of b"

fun spaced :: "string list \<Rightarrow> string list \<Rightarrow> string" where
  "spaced [] [] = []"
| "spaced (w # ws) [] = w"
| "spaced [] (t # ts) = t @ spaced [] ts"
| "spaced (w # ws) (t # ts) = w @ t @ spaced ws ts"

text \<open>
  The value in standard integer arithmetic: comparisons give 1 or 0, division truncates
  towards zero and gives 0 for the divisor 0.
\<close>

fun std_op :: "binop \<Rightarrow> int \<Rightarrow> int \<Rightarrow> int" where
  "std_op Add a b = a + b" | "std_op Sub a b = a - b" | "std_op Mul a b = a * b"
| "std_op Div a b = (if b = 0 then 0 else tdiv a b)"
| "std_op Eq a b = (if a = b then 1 else 0)" | "std_op Ne a b = (if a \<noteq> b then 1 else 0)"
| "std_op Lt a b = (if a < b then 1 else 0)" | "std_op Le a b = (if a \<le> b then 1 else 0)"
| "std_op Gt a b = (if a > b then 1 else 0)" | "std_op Ge a b = (if a \<ge> b then 1 else 0)"

fun std_value :: "expr \<Rightarrow> int" where
  "std_value (Lit ds) = dec_val ds"
| "std_value (Paren e) = std_value e"
| "std_value (Bin op a b) = std_op op (std_value a) (std_value b)"

text \<open>Every literal and every intermediate result fits a \<open>long long\<close>.\<close>

definition fits64 :: "int \<Rightarrow> bool" where
  "fits64 x = (- (2 ^ 63) \<le> x \<and> x < 2 ^ 63)"

fun in_range :: "expr \<Rightarrow> bool" where
  "in_range (Lit ds) = fits64 (dec_val ds)"
| "in_range (Paren e) = in_range e"
| "in_range (Bin op a b) = (in_range a \<and> in_range b \<and> fits64 (std_op op (std_value a) (std_value b)))"

text \<open>The postfix form of an expression.\<close>

fun postfix :: "expr \<Rightarrow> string list" where
  "postfix (Lit ds) = [ds]"
| "postfix (Paren e) = postfix e"
| "postfix (Bin op a b) = postfix a @ postfix b @ [op_text op]"

text \<open>Notions used in the proofs about the tokenizer and the conversion to postfix.\<close>

definition blocked :: "nat \<Rightarrow> string list \<Rightarrow> bool" where
  "blocked p st = (st = [] \<or> \<not> isOperator (hd st) \<or> precedence (hd st) < p)"

definition digits :: "string \<Rightarrow> bool" where
  "digits t = (t \<noteq> [] \<and> list_all isdigit t)"

definition gtoken :: "string \<Rightarrow> bool" where
  "gtoken t = (digits t \<or> isOperator t \<or> t = ''('' \<or> t = '')'')"

definition follows_ok :: "string \<Rightarrow> string \<Rightarrow> bool" where
  "follows_ok t s = (s = [] \<or> ((digits t \<longrightarrow> \<not> isdigit (hd s)) \<and>
      (t = ''<'' \<or> t = ''>'' \<longrightarrow> hd s \<noteq> CHR ''='')))"

definition pair_ok :: "string \<Rightarrow> string \<Rightarrow> bool" where
  "pair_ok t u = (u \<noteq> [] \<and> (digits t \<longrightarrow> \<not> isdigit (hd u)) \<and>
      (t = ''<'' \<or> t = ''>'' \<longrightarrow> hd u \<noteq> CHR ''=''))"

fun adj_ok :: "string list \<Rightarrow> bool" where
  "adj_ok [] = True"
| "adj_ok [t] = True"
| "adj_ok (t # u # ts) = (pair_ok t u \<and> adj_ok (u # ts))"

definition opens :: "string \<Rightarrow> bool" where
  "opens t = (digits t \<or> t = ''('')"

definition closes :: "string \<Rightarrow> bool" where
  "closes t = (digits t \<or> t = '')'')"


section \<open>Notions used in the statements about the run loop\<close>

text \<open>
  An extraction that the selection loop of a node rejects: text that is not a number, or
  a number that is not the id of a choice of the node.
\<close>

definition rejected :: "Choice list \<Rightarrow> int32 option \<Rightarrow> bool" where
  "rejected cs x = (case x of None \<Rightarrow> True | Some v \<Rightarrow> find (\<lambda>c. c_id c = v) cs = None)"

text \<open>What the selection loop writes for a sequence of rejected extractions.\<close>

fun reprompts :: "int32 option list \<Rightarrow> string" where
  "reprompts [] = []"
| "reprompts (None # xs) = ''Choose: '' @ ''Invalid'' @ nl @ reprompts xs"
| "reprompts (Some v # xs) = ''Choose: '' @ ''Invalid choice'' @ nl @ reprompts xs"

text \<open>
  What is observed of a run that has returned: its output, and the stored value of a
  field of an object. \<open>None\<close> when the run failed or did not return.
\<close>

definition final_out :: "(error + RState) option \<Rightarrow> string option" where
  "final_out r = (case r of Some (Inr s) \<Rightarrow> Some (r_out s) | _ \<Rightarrow> None)"

definition final_field :: "(error + RState) option \<Rightarrow> string \<Rightarrow> string \<Rightarrow> int32 option" where
  "final_field r inst field =
     (case r of
        Some (Inr s) \<Rightarrow> (case p_objects (r_prog s) inst of None \<Rightarrow> None | Some fs \<Rightarrow> fs field)
      | _ \<Rightarrow> None)"

text \<open>What the parser has stored for a method of a class and for a node.\<close>

definition parsed_method :: "string \<Rightarrow> string \<Rightarrow> string \<Rightarrow> string list option" where
  "parsed_method source cls mname =
     (case parse (tokens source) empty_prog of
        Inl e \<Rightarrow> None
      | Inr prog \<Rightarrow> (case p_classes prog cls of None \<Rightarrow> None | Some cdef \<Rightarrow> cd_methods cdef mname))"

definition parsed_actions :: "string \<Rightarrow> string \<Rightarrow> string list option" where
  "parsed_actions source node =
     (case parse (tokens source) empty_prog of
        Inl e \<Rightarrow> None
      | Inr prog \<Rightarrow> map_option n_actions (p_nodes prog node))"

section \<open>Properties of the expression engine\<close>

lemmas ev_defs = splitDot_def evalExpressionString_def evalRPN_def infixToRPN_def isspace_def
  isdigit_def isalpha_def isalnum_def isidchar_def isOperator_def precedence_def operand_def
  stoll_def dec_val_def digit_val_def apply_op_def wrap64_def tdiv_def numeric_token_def b2i_def

subsection \<open>Identifiers and dotted references\<close>

lemma isalpha_facts:
  assumes "isalpha c \<or> c = CHR ''_''"
  shows "\<not> isspace c" "\<not> isdigit c" "c \<notin> set ''+-*/()<>''" "c \<noteq> CHR 0x00"
    "c \<noteq> CHR ''-''" "c \<noteq> CHR ''+''" "c \<noteq> CHR ''<''" "c \<noteq> CHR ''>''" "c \<noteq> CHR ''=''" "c \<noteq> CHR ''!''"
    "c \<noteq> CHR ''(''" "c \<noteq> CHR '')''" "c \<noteq> CHR ''*''" "c \<noteq> CHR ''/''"
  using assms by (auto simp: isalpha_def isspace_def isdigit_def)

lemma tokenize_ident:
  assumes c: "isalpha c \<or> c = CHR ''_''" and r: "\<forall>x\<in>set r. isidchar x"
  shows "tokenizeExpr (c # r) = [c # r]"
proof (cases r)
  case Nil
  then show ?thesis using c isalpha_facts [OF c] by auto
next
  case (Cons d s)
  have tw: "takeWhile isidchar (d # s) = d # s" and dw: "dropWhile isidchar (d # s) = []"
    using r Cons by auto
  show ?thesis
    unfolding Cons tokenizeExpr.simps(3) [of c d s] tw dw
    using isalpha_facts [OF c] c by simp
qed

lemma rpn_single:
  assumes "t \<noteq> []" "\<not> isOperator t" "t \<noteq> ''(''" "t \<noteq> '')''"
  shows "infixToRPN [t] = [t]"
  using assms by (simp add: infixToRPN_def)

lemma ident_not_special:
  assumes c: "isalpha c \<or> c = CHR ''_''"
  shows "\<not> isOperator (c # r)" "c # r \<noteq> ''(''" "c # r \<noteq> '')''" "\<not> numeric_token (c # r)"
  using isalpha_facts [OF c] by (auto simp: isOperator_def numeric_token_def)

lemma splitDot_dotted:
  assumes "CHR ''.'' \<notin> set obj"
  shows "splitDot (obj @ CHR ''.'' # field) = (obj, field)"
proof -
  have "takeWhile (\<lambda>c. c \<noteq> CHR ''.'') (obj @ CHR ''.'' # field) = obj"
    using assms by (induction obj) auto
  moreover have "dropWhile (\<lambda>c. c \<noteq> CHR ''.'') (obj @ CHR ''.'' # field) = CHR ''.'' # field"
    using assms by (induction obj) auto
  ultimately show ?thesis by (simp add: splitDot_def)
qed

lemma operand_dotted:
  assumes c: "isalpha c \<or> c = CHR ''_''" and nd: "CHR ''.'' \<notin> set (c # cs)" and f: "field \<noteq> []"
  shows "operand ((c # cs) @ CHR ''.'' # field) vars boolVars objects =
     Inr (case objects (c # cs) of None \<Rightarrow> 0
          | Some fs \<Rightarrow> (case fs field of None \<Rightarrow> 0 | Some v \<Rightarrow> sint v))"
proof -
  have nt: "(c # cs) @ CHR ''.'' # field \<noteq> ''true''" "(c # cs) @ CHR ''.'' # field \<noteq> ''false''"
  proof -
    have "CHR ''.'' \<in> set ((c # cs) @ CHR ''.'' # field)" by simp
    moreover have "CHR ''.'' \<notin> set ''true''" "CHR ''.'' \<notin> set ''false''" by simp_all
    ultimately show "(c # cs) @ CHR ''.'' # field \<noteq> ''true''" "(c # cs) @ CHR ''.'' # field \<noteq> ''false''"
      by metis+
  qed
  have nn: "\<not> numeric_token ((c # cs) @ CHR ''.'' # field)"
    using ident_not_special(4) [OF c, of "cs @ CHR ''.'' # field"] by simp
  show ?thesis
    unfolding operand_def splitDot_dotted [OF nd]
    using nn nt f by (auto split: option.splits)
qed

text \<open>
  C7. A dotted reference \<open>obj.field\<close> (an identifier, a dot, a field name) pushes the
  current value of that field of that object, and 0 when the object or the field is
  absent; evaluating the reference alone returns that value. The result is always a
  value, never an error.
\<close>

theorem dotted_reference_value:
  assumes c: "isalpha c \<or> c = CHR ''_''"
    and cs: "\<forall>x\<in>set cs. isalnum x \<or> x = CHR ''_''"
    and f: "field \<noteq> []" "\<forall>x\<in>set field. isidchar x"
  shows "operand ((c # cs) @ ''.'' @ field) vars boolVars objects =
           Inr (case objects (c # cs) of None \<Rightarrow> 0
                | Some fs \<Rightarrow> (case fs field of None \<Rightarrow> 0 | Some v \<Rightarrow> sint v))
       \<and> evalExpressionString ((c # cs) @ ''.'' @ field) vars boolVars objects =
           Inr (case objects (c # cs) of None \<Rightarrow> 0
                | Some fs \<Rightarrow> (case fs field of None \<Rightarrow> 0 | Some v \<Rightarrow> v))"
proof -
  let ?t = "(c # cs) @ CHR ''.'' # field"
  have dotc: "c \<noteq> CHR ''.''" using c by (auto simp: isalpha_def)
  have "x \<noteq> CHR ''.''" if "x \<in> set cs" for x
    using cs that by (auto simp: isalnum_def isalpha_def isdigit_def)
  then have nd: "CHR ''.'' \<notin> set (c # cs)" using dotc by auto
  have idc: "\<forall>x\<in>set (cs @ CHR ''.'' # field). isidchar x"
    using cs f by (auto simp: isidchar_def)
  have tok: "tokenizeExpr ?t = [?t]"
    using tokenize_ident [OF c idc] by simp
  have rpn: "infixToRPN [?t] = [?t]"
    using rpn_single [of ?t] ident_not_special [OF c, of "cs @ CHR ''.'' # field"] by simp
  have op: "operand ?t vars boolVars objects =
     Inr (case objects (c # cs) of None \<Rightarrow> 0
          | Some fs \<Rightarrow> (case fs field of None \<Rightarrow> 0 | Some v \<Rightarrow> sint v))"
    by (rule operand_dotted [OF c nd f(1)])
  have no: "\<not> isOperator ?t"
    using ident_not_special [OF c, of "cs @ CHR ''.'' # field"] by simp
  have ev: "evalExpressionString ?t vars boolVars objects =
     Inr (case objects (c # cs) of None \<Rightarrow> 0
          | Some fs \<Rightarrow> (case fs field of None \<Rightarrow> 0 | Some v \<Rightarrow> v))"
    unfolding evalExpressionString_def tok rpn evalRPN_def
    using no op by (simp split: option.splits)
  show ?thesis using op ev by simp
qed

theorem dotted_reference_value_witness:
  "evalExpressionString ''hero.health'' Map.empty Map.empty [''hero'' \<mapsto> [''health'' \<mapsto> 10]] = Inr 10
   \<and> evalExpressionString ''hero.mana'' Map.empty Map.empty [''hero'' \<mapsto> [''health'' \<mapsto> 10]] = Inr 0
   \<and> evalExpressionString ''ghost.health'' Map.empty Map.empty [''hero'' \<mapsto> [''health'' \<mapsto> 10]] = Inr 0"
  using dotted_reference_value [of "CHR ''h''" "''ero''" "''health''" Map.empty Map.empty "[''hero'' \<mapsto> [''health'' \<mapsto> 10]]"]
    dotted_reference_value [of "CHR ''h''" "''ero''" "''mana''" Map.empty Map.empty "[''hero'' \<mapsto> [''health'' \<mapsto> 10]]"]
    dotted_reference_value [of "CHR ''g''" "''host''" "''health''" Map.empty Map.empty "[''hero'' \<mapsto> [''health'' \<mapsto> 10]]"]
  by (simp add: isalpha_def isalnum_def isdigit_def isidchar_def)

subsection \<open>Postfix evaluation of arbitrary token sequences\<close>











lemma op_text_facts: "isOperator (op_text op)" "precedence (op_text op) = tier op"
  "op_text op \<noteq> []" "op_text op \<noteq> ''(''" "op_text op \<noteq> '')''"
  by (cases op; simp add: isOperator_def precedence_def)+

lemma pop_ops_all:
  assumes "\<forall>x\<in>set ops. isOperator x \<and> p \<le> precedence x" "blocked p st" "precedence t = p"
  shows "pop_ops t (ops @ st) out = (st, out @ ops)"
  using assms
proof (induction ops arbitrary: out)
  case Nil
  then show ?case by (cases st) (auto simp: blocked_def)
next
  case (Cons a ops)
  then show ?case by simp
qed

lemma pop_to_paren_all:
  assumes "\<forall>x\<in>set ops. isOperator x"
  shows "pop_to_paren (ops @ ''('' # st) out = (''('' # st, out @ ops)"
  using assms
proof (induction ops arbitrary: out)
  case Nil
  then show ?case by simp
next
  case (Cons a ops)
  then have "a \<noteq> ''(''" by (auto simp: isOperator_def)
  then show ?case using Cons by simp
qed

lemma digits_token:
  assumes "ds \<noteq> []" "list_all isdigit ds"
  shows "\<not> isOperator ds" "ds \<noteq> ''(''" "ds \<noteq> '')''" "numeric_token ds"
proof -
  obtain c cs where ds: "ds = c # cs" using assms(1) by (cases ds) auto
  then have d: "isdigit c" using assms(2) by simp
  then have "c \<noteq> CHR ''+''" "c \<noteq> CHR ''-''" "c \<noteq> CHR ''*''" "c \<noteq> CHR ''/''" "c \<noteq> CHR ''=''"
    "c \<noteq> CHR ''!''" "c \<noteq> CHR ''<''" "c \<noteq> CHR ''>''" "c \<noteq> CHR ''(''" "c \<noteq> CHR '')''"
    by (auto simp: isdigit_def)
  then show "\<not> isOperator ds" "ds \<noteq> ''(''" "ds \<noteq> '')''" "numeric_token ds"
    using ds d by (auto simp: isOperator_def numeric_token_def)
qed

lemma blocked_mono: "blocked p st \<Longrightarrow> p \<le> q \<Longrightarrow> blocked q st"
  by (auto simp: blocked_def)

lemma shunting_yard:
  assumes "well_formed e" "blocked (level e) st"
  shows "\<exists>ops oute. rpn_loop (tokens_of e @ rest) st out = rpn_loop rest (ops @ st) (out @ oute)
           \<and> oute @ ops = postfix e
           \<and> (\<forall>x\<in>set ops. isOperator x \<and> level e \<le> precedence x)"
  using assms
proof (induction e arbitrary: st out rest)
  case (Lit ds)
  then have "rpn_loop (tokens_of (Lit ds) @ rest) st out = rpn_loop rest ([] @ st) (out @ [ds])"
    using digits_token [of ds] by simp
  then show ?case by fastforce
next
  case (Paren e)
  have b: "blocked (level e) (''('' # st)" by (simp add: blocked_def isOperator_def)
  from Paren.IH [OF _ b, of "'')'' # rest" out] Paren.prems
  obtain ops oute where
    1: "rpn_loop (tokens_of e @ '')'' # rest) (''('' # st) out = rpn_loop ('')'' # rest) (ops @ ''('' # st) (out @ oute)"
    and 2: "oute @ ops = postfix e" and 3: "\<forall>x\<in>set ops. isOperator x \<and> level e \<le> precedence x"
    by auto
  have pp: "pop_to_paren (ops @ ''('' # st) (out @ oute) = (''('' # st, (out @ oute) @ ops)"
    using pop_to_paren_all 3 by blast
  have no: "\<not> isOperator '')''" "\<not> isOperator ''(''" by (simp_all add: isOperator_def)
  have "rpn_loop (tokens_of (Paren e) @ rest) st out = rpn_loop (tokens_of e @ '')'' # rest) (''('' # st) out"
    using no by simp
  also have "\<dots> = rpn_loop ('')'' # rest) (ops @ ''('' # st) (out @ oute)" by (rule 1)
  also have "\<dots> = rpn_loop rest st ((out @ oute) @ ops)"
    using no pp by simp
  finally have "rpn_loop (tokens_of (Paren e) @ rest) st out = rpn_loop rest ([] @ st) (out @ postfix e)"
    using 2 by simp
  then show ?case by fastforce
next
  case (Bin op a b)
  have wa: "well_formed a" and wb: "well_formed b" and la: "tier op \<le> level a" and lb: "tier op < level b"
    using Bin.prems by auto
  have bst: "blocked (tier op) st" using Bin.prems by simp
  have ba: "blocked (level a) st" using bst la by (rule blocked_mono)
  from Bin.IH(1) [OF wa ba, of "op_text op # tokens_of b @ rest" out]
  obtain opsa outa where
    a1: "rpn_loop (tokens_of a @ op_text op # tokens_of b @ rest) st out
          = rpn_loop (op_text op # tokens_of b @ rest) (opsa @ st) (out @ outa)"
    and a2: "outa @ opsa = postfix a" and a3: "\<forall>x\<in>set opsa. isOperator x \<and> level a \<le> precedence x"
    by auto
  have a3': "\<forall>x\<in>set opsa. isOperator x \<and> tier op \<le> precedence x"
    using a3 la by auto
  have pops: "pop_ops (op_text op) (opsa @ st) (out @ outa) = (st, (out @ outa) @ opsa)"
    using pop_ops_all [OF a3' bst] op_text_facts(2) by blast
  have bb: "blocked (level b) (op_text op # st)"
    using lb by (simp add: blocked_def op_text_facts)
  from Bin.IH(2) [OF wb bb, of rest "(out @ outa) @ opsa"]
  obtain opsb outb where
    b1: "rpn_loop (tokens_of b @ rest) (op_text op # st) ((out @ outa) @ opsa)
          = rpn_loop rest (opsb @ op_text op # st) (((out @ outa) @ opsa) @ outb)"
    and b2: "outb @ opsb = postfix b" and b3: "\<forall>x\<in>set opsb. isOperator x \<and> level b \<le> precedence x"
    by auto
  have "rpn_loop (tokens_of (Bin op a b) @ rest) st out
      = rpn_loop (tokens_of a @ op_text op # tokens_of b @ rest) st out" by simp
  also have "\<dots> = rpn_loop (op_text op # tokens_of b @ rest) (opsa @ st) (out @ outa)" by (rule a1)
  also have "\<dots> = rpn_loop (tokens_of b @ rest) (op_text op # st) ((out @ outa) @ opsa)"
    using pops op_text_facts by simp
  also have "\<dots> = rpn_loop rest (opsb @ op_text op # st) (((out @ outa) @ opsa) @ outb)" by (rule b1)
  finally have r: "rpn_loop (tokens_of (Bin op a b) @ rest) st out
      = rpn_loop rest ((opsb @ [op_text op]) @ st) (out @ (outa @ opsa @ outb))" by simp
  have p: "(outa @ opsa @ outb) @ (opsb @ [op_text op]) = postfix (Bin op a b)"
    using a2 b2 by (metis append.assoc postfix.simps(3))
  have q: "\<forall>x\<in>set (opsb @ [op_text op]). isOperator x \<and> level (Bin op a b) \<le> precedence x"
    using b3 lb op_text_facts by auto
  show ?case using r p q by blast
qed

lemma infixToRPN_postfix:
  assumes "well_formed e"
  shows "infixToRPN (tokens_of e) = postfix e"
proof -
  have "blocked (level e) []" by (simp add: blocked_def)
  from shunting_yard [OF assms this, of "[]" "[]"]
  obtain ops oute where "rpn_loop (tokens_of e) [] [] = rpn_loop [] ops oute" "oute @ ops = postfix e"
    by auto
  then show ?thesis by (simp add: infixToRPN_def)
qed



lemma dec_val_foldl_nonneg:
  assumes "0 \<le> acc" "list_all isdigit ds"
  shows "0 \<le> foldl (\<lambda>acc c. acc * 10 + digit_val c) acc ds"
  using assms
proof (induction ds arbitrary: acc)
  case Nil
  then show ?case by simp
next
  case (Cons c ds)
  have "0 \<le> digit_val c" using Cons.prems(2) by (simp add: digit_val_def isdigit_def)
  then have "0 \<le> acc * 10 + digit_val c" using Cons.prems(1) by simp
  then show ?case using Cons by simp
qed

lemma dec_val_nonneg: "list_all isdigit ds \<Longrightarrow> 0 \<le> dec_val ds"
  unfolding dec_val_def by (rule dec_val_foldl_nonneg) simp_all

lemma stoll_digits:
  assumes "ds \<noteq> []" "list_all isdigit ds" "fits64 (dec_val ds)"
  shows "stoll ds = Inr (dec_val ds)"
proof -
  obtain c cs where ds: "ds = c # cs" using assms(1) by (cases ds) auto
  then have d: "isdigit c" using assms(2) by simp
  then have ns: "\<not> isspace c" and sg: "c \<noteq> CHR ''-''" "c \<noteq> CHR ''+''"
    by (auto simp: isdigit_def isspace_def)
  have dw: "dropWhile isspace ds = ds" using ds ns by simp
  have tw: "takeWhile isdigit ds = ds" using assms(2) by (simp add: list_all_iff)
  show ?thesis
    unfolding stoll_def dw Let_def
    using ds sg tw assms(1,3) by (simp add: fits64_def)
qed

lemma operand_digits:
  assumes "ds \<noteq> []" "list_all isdigit ds" "fits64 (dec_val ds)"
  shows "operand ds vars boolVars objects = Inr (dec_val ds)"
  using digits_token(4) [OF assms(1,2)] stoll_digits [OF assms] by (simp add: operand_def)

lemma wrap64_id: "fits64 x \<Longrightarrow> wrap64 x = x"
  unfolding wrap64_def fits64_def
  by (simp add: signed_take_bit_int_eq_self)

lemma apply_op_std:
  assumes "fits64 (std_op op a b)"
  shows "apply_op (op_text op) a b = Inr (std_op op a b)"
proof -
  have "\<not> (a = - (2 ^ 63) \<and> b = - 1)" if "op = Div"
  proof
    assume "a = - (2 ^ 63) \<and> b = - 1"
    then have "std_op Div a b = 2 ^ 63" by (simp add: tdiv_def)
    then show False using assms that by (simp add: fits64_def)
  qed
  then show ?thesis
    using assms by (cases op) (auto simp: apply_op_def b2i_def wrap64_id)
qed

lemma eval_postfix:
  assumes "well_formed e" "in_range e"
  shows "eval_loop (postfix e @ rest) st vars boolVars objects
           = eval_loop rest (std_value e # st) vars boolVars objects"
  using assms
proof (induction e arbitrary: rest st)
  case (Lit ds)
  then show ?case
    using digits_token(1) [of ds] operand_digits [of ds vars boolVars objects] by simp
next
  case (Paren e)
  then show ?case by simp
next
  case (Bin op a b)
  have "eval_loop (postfix (Bin op a b) @ rest) st vars boolVars objects
      = eval_loop (postfix a @ (postfix b @ op_text op # rest)) st vars boolVars objects" by simp
  also have "\<dots> = eval_loop (postfix b @ op_text op # rest) (std_value a # st) vars boolVars objects"
    using Bin.IH(1) Bin.prems by simp
  also have "\<dots> = eval_loop (op_text op # rest) (std_value b # std_value a # st) vars boolVars objects"
    using Bin.IH(2) Bin.prems by simp
  also have "\<dots> = eval_loop rest (std_value (Bin op a b) # st) vars boolVars objects"
    using op_text_facts(1) [of op] apply_op_std [of op "std_value a" "std_value b"] Bin.prems(2)
    by simp
  finally show ?case .
qed

lemma evalRPN_tokens:
  assumes "well_formed e" "in_range e"
  shows "evalRPN (infixToRPN (tokens_of e)) vars boolVars objects = Inr (word_of_int (std_value e))"
  using eval_postfix [OF assms, of "[]" "[]"] infixToRPN_postfix [OF assms(1)]
  by (simp add: evalRPN_def)


lemma tokenize_space1: "isspace c \<Longrightarrow> tokenizeExpr (c # s) = tokenizeExpr s"
  by (cases s) simp_all

lemma tokenize_space: "list_all isspace w \<Longrightarrow> tokenizeExpr (w @ s) = tokenizeExpr s"
  by (induction w) (simp_all add: tokenize_space1)

lemma digit_char_facts:
  assumes "isdigit c"
  shows "\<not> isspace c" "c \<notin> set ''+-*/()<>''" "c \<noteq> CHR 0x00" "c \<noteq> CHR ''<''" "c \<noteq> CHR ''>''"
    "c \<noteq> CHR ''=''" "c \<noteq> CHR ''!''"
  using assms by (auto simp: isdigit_def isspace_def)

lemma tokenize_digits:
  assumes "digits t" "follows_ok t s"
  shows "tokenizeExpr (t @ s) = t # tokenizeExpr s"
proof -
  obtain c cs where t: "t = c # cs" and c: "isdigit c" and cs: "list_all isdigit cs"
    using assms(1) by (cases t) (auto simp: digits_def)
  have nd: "s = [] \<or> \<not> isdigit (hd s)" using assms by (auto simp: follows_ok_def)
  show ?thesis
  proof (cases "cs @ s")
    case Nil
    then show ?thesis using t c digit_char_facts [OF c] by simp
  next
    case (Cons d r)
    have tw: "takeWhile isdigit (cs @ s) = cs"
      using cs nd by (cases s) (auto simp: list_all_iff takeWhile_append2 )
    have dw: "dropWhile isdigit (cs @ s) = s"
      using cs nd by (cases s) (auto simp: list_all_iff dropWhile_append2)
    have "tokenizeExpr (c # d # r) = (c # takeWhile isdigit (d # r)) # tokenizeExpr (dropWhile isdigit (d # r))"
      unfolding tokenizeExpr.simps(3) [of c d r] using c digit_char_facts [OF c] by simp
    then show ?thesis using t Cons tw dw by simp
  qed
qed

lemma space_not_sym:
  assumes "c \<in> set ''+-*/()<>=!''"
  shows "\<not> isspace c"
  using assms by (auto simp: isspace_def)

lemma tokenize_two:
  assumes "t = ''<='' \<or> t = ''>='' \<or> t = ''=='' \<or> t = ''!=''"
  shows "tokenizeExpr (t @ s) = t # tokenizeExpr s"
  using assms by (auto simp: isspace_def)

lemma tokenize_one:
  assumes "t = [c]" "c \<in> set ''+-*/()<>''" "follows_ok t s"
  shows "tokenizeExpr (t @ s) = t # tokenizeExpr s"
proof (cases s)
  case Nil
  then show ?thesis using assms space_not_sym [of c] by auto
next
  case (Cons d r)
  have ns: "\<not> isspace c" using assms(2) space_not_sym [of c] by auto
  have two: "\<not> ([c, d] = ''<='' \<or> [c, d] = ''>='' \<or> [c, d] = ''=='' \<or> [c, d] = ''!='')"
    using assms Cons by (auto simp: follows_ok_def)
  have "tokenizeExpr (c # d # r) = [c] # tokenizeExpr (d # r)"
    unfolding tokenizeExpr.simps(3) [of c d r] using ns two assms(2) by simp
  then show ?thesis using assms(1) Cons by simp
qed

lemma operator_shape:
  assumes "isOperator t"
  shows "t = ''+'' \<or> t = ''-'' \<or> t = ''*'' \<or> t = ''/'' \<or> t = ''=='' \<or> t = ''!=''
         \<or> t = ''<'' \<or> t = ''<='' \<or> t = ''>'' \<or> t = ''>=''"
  using assms by (simp add: isOperator_def)

lemma tokenize_gtoken:
  assumes "gtoken t" "follows_ok t s"
  shows "tokenizeExpr (t @ s) = t # tokenizeExpr s"
proof -
  have one: "tokenizeExpr ([c] @ s) = [c] # tokenizeExpr s"
    if "t = [c]" "c \<in> set ''+-*/()<>''" for c
    using tokenize_one [OF that] assms(2) that(1) by simp
  have "digits t \<or> isOperator t \<or> t = ''('' \<or> t = '')''"
    using assms(1) by (simp only: gtoken_def)
  then consider (1) "digits t" | (2) "isOperator t" | (3) "t = ''(''" | (4) "t = '')''"
    by (elim disjE)
  then show ?thesis
  proof cases
    case 1
    then show ?thesis using assms(2) by (rule tokenize_digits)
  next
    case 2
    from operator_shape [OF 2] show ?thesis
    proof (elim disjE)
      assume "t = ''+''" then show ?thesis using one [of "CHR ''+''"] by simp
    next
      assume "t = ''-''" then show ?thesis using one [of "CHR ''-''"] by simp
    next
      assume "t = ''*''" then show ?thesis using one [of "CHR ''*''"] by simp
    next
      assume "t = ''/''" then show ?thesis using one [of "CHR ''/''"] by simp
    next
      assume "t = ''<''" then show ?thesis using one [of "CHR ''<''"] by simp
    next
      assume "t = ''>''" then show ?thesis using one [of "CHR ''>''"] by simp
    next
      assume a: "t = ''<=''" show ?thesis by (rule tokenize_two) (simp add: a)
    next
      assume a: "t = ''>=''" show ?thesis by (rule tokenize_two) (simp add: a)
    next
      assume a: "t = ''==''" show ?thesis by (rule tokenize_two) (simp add: a)
    next
      assume a: "t = ''!=''" show ?thesis by (rule tokenize_two) (simp add: a)
    qed
  next
    case 3
    then show ?thesis using one [of "CHR ''(''"] by simp
  next
    case 4
    then show ?thesis using one [of "CHR '')''"] by simp
  qed
qed

lemma follows_ok_space: "isspace c \<Longrightarrow> follows_ok t (c # s)"
  by (auto simp: follows_ok_def isspace_def isdigit_def)

lemma follows_ok_app: "follows_ok t u \<Longrightarrow> u \<noteq> [] \<Longrightarrow> follows_ok t (u @ s)"
  by (cases u) (auto simp: follows_ok_def)

lemma follows_ok_spaced:
  assumes "\<forall>w\<in>set ws. list_all isspace w" "ts = [] \<or> pair_ok t (hd ts)"
  shows "follows_ok t (spaced ws ts)"
proof (cases ts)
  case Nil
  show ?thesis
  proof (cases ws)
    case Nil
    then show ?thesis using \<open>ts = []\<close> by (simp add: follows_ok_def)
  next
    case (Cons w ws')
    then have "list_all isspace w" using assms(1) by simp
    show ?thesis
    proof (cases w)
      case Nil
      then show ?thesis using Cons \<open>ts = []\<close> by (simp add: follows_ok_def)
    next
      case (Cons a r)
      then have "isspace a" using \<open>list_all isspace w\<close> by simp
      then show ?thesis using Cons \<open>ws = w # ws'\<close> \<open>ts = []\<close> by (simp add: follows_ok_space)
    qed
  qed
next
  case (Cons u us)
  then have p: "pair_ok t u" using assms(2) by simp
  then have fu: "follows_ok t (u @ s)" for s
    by (cases u) (auto simp: pair_ok_def follows_ok_def)
  show ?thesis
  proof (cases ws)
    case Nil
    then show ?thesis using Cons fu by simp
  next
    case (Cons w ws')
    then have "list_all isspace w" using assms(1) by simp
    show ?thesis
    proof (cases w)
      case Nil
      then show ?thesis using Cons \<open>ts = u # us\<close> fu [of "spaced ws' us"] by simp
    next
      case (Cons a r)
      then have "isspace a" using \<open>list_all isspace w\<close> by simp
      then show ?thesis using Cons \<open>ws = w # ws'\<close> \<open>ts = u # us\<close> by (simp add: follows_ok_space)
    qed
  qed
qed

lemma lex_tokens:
  assumes "\<forall>t\<in>set ts. gtoken t" "adj_ok ts" "\<forall>w\<in>set ws. list_all isspace w"
  shows "tokenizeExpr (spaced ws ts) = ts"
  using assms
proof (induction ws ts rule: spaced.induct)
  case 1
  then show ?case by simp
next
  case (2 w ws)
  then show ?case using tokenize_space [of w "[]"] by simp
next
  case (3 t ts)
  have p: "ts = [] \<or> pair_ok t (hd ts)" using "3.prems"(2) by (cases ts) auto
  have f: "follows_ok t (spaced [] ts)" using follows_ok_spaced [OF _ p, of "[]"] by simp
  have a: "adj_ok ts" using "3.prems"(2) by (cases ts) auto
  show ?case using tokenize_gtoken [OF _ f] "3.prems" "3.IH" a by simp
next
  case (4 w ws t ts)
  have p: "ts = [] \<or> pair_ok t (hd ts)" using "4.prems"(2) by (cases ts) auto
  have f: "follows_ok t (spaced ws ts)" using follows_ok_spaced [OF _ p, of ws] "4.prems"(3) by simp
  have a: "adj_ok ts" using "4.prems"(2) by (cases ts) auto
  have "tokenizeExpr (spaced (w # ws) (t # ts)) = tokenizeExpr (t @ spaced ws ts)"
    using tokenize_space [of w] "4.prems"(3) by simp
  then show ?case using tokenize_gtoken [OF _ f] "4.prems" "4.IH" a by simp
qed

lemma adj_ok_append:
  assumes "xs \<noteq> []" "ys \<noteq> []"
  shows "adj_ok (xs @ ys) = (adj_ok xs \<and> adj_ok ys \<and> pair_ok (last xs) (hd ys))"
  using assms
proof (induction xs rule: adj_ok.induct)
  case 1
  then show ?case by simp
next
  case (2 t)
  then show ?case by (cases ys) auto
next
  case (3 t u ts)
  then show ?case by simp
qed

lemma adj_ok_cons: "ys \<noteq> [] \<Longrightarrow> adj_ok (x # ys) = (pair_ok x (hd ys) \<and> adj_ok ys)"
  by (cases ys) simp_all

lemma digits_not_sym: "digits t \<Longrightarrow> t \<noteq> ''<'' \<and> t \<noteq> ''>'' \<and> t \<noteq> ''('' \<and> t \<noteq> '')''"
  by (auto simp: digits_def isdigit_def)

lemma op_not_digits: "\<not> digits (op_text op)" "\<not> isdigit (hd (op_text op))" "op_text op \<noteq> []"
  by (cases op; simp add: digits_def isdigit_def)+

lemma pair_ok_closes_op: "closes t \<Longrightarrow> pair_ok t (op_text op)"
  using op_not_digits [of op] digits_not_sym [of t]
  by (auto simp: pair_ok_def closes_def)

lemma pair_ok_op_opens: "opens u \<Longrightarrow> pair_ok (op_text op) u"
  using op_not_digits [of op]
  by (cases u) (auto simp: pair_ok_def opens_def digits_def isdigit_def)

lemma pair_ok_paren_opens: "opens u \<Longrightarrow> pair_ok ''('' u"
  by (cases u) (auto simp: pair_ok_def opens_def digits_def isdigit_def)

lemma pair_ok_closes_paren: "closes t \<Longrightarrow> pair_ok t '')''"
  using digits_not_sym [of t] by (auto simp: pair_ok_def closes_def isdigit_def)

lemma tokens_shape:
  assumes "well_formed e"
  shows "tokens_of e \<noteq> [] \<and> opens (hd (tokens_of e)) \<and> closes (last (tokens_of e))
         \<and> (\<forall>t\<in>set (tokens_of e). gtoken t) \<and> adj_ok (tokens_of e)"
  using assms
proof (induction e)
  case (Lit ds)
  then show ?case by (simp add: opens_def closes_def digits_def gtoken_def)
next
  case (Paren e)
  then have ih: "tokens_of e \<noteq> []" "opens (hd (tokens_of e))" "closes (last (tokens_of e))"
    "\<forall>t\<in>set (tokens_of e). gtoken t" "adj_ok (tokens_of e)" by auto
  have 1: "adj_ok (tokens_of e @ ['')''])"
    using adj_ok_append [of "tokens_of e" "['')'']"] ih pair_ok_closes_paren by simp
  have "adj_ok (''('' # (tokens_of e @ ['')'']))"
    using adj_ok_cons [of "tokens_of e @ ['')'']" "''(''"] 1 ih pair_ok_paren_opens
    by simp
  then show ?case using ih by (simp add: opens_def closes_def gtoken_def)
next
  case (Bin op a b)
  then have iha: "tokens_of a \<noteq> []" "opens (hd (tokens_of a))" "closes (last (tokens_of a))"
    "\<forall>t\<in>set (tokens_of a). gtoken t" "adj_ok (tokens_of a)"
    and ihb: "tokens_of b \<noteq> []" "opens (hd (tokens_of b))" "closes (last (tokens_of b))"
    "\<forall>t\<in>set (tokens_of b). gtoken t" "adj_ok (tokens_of b)" by auto
  have 1: "adj_ok ([op_text op] @ tokens_of b)"
    using adj_ok_cons [of "tokens_of b" "op_text op"] ihb pair_ok_op_opens
    by simp
  have 2: "adj_ok (tokens_of a @ ([op_text op] @ tokens_of b))"
    using adj_ok_append [of "tokens_of a" "[op_text op] @ tokens_of b"] iha 1 pair_ok_closes_op
    by simp
  show ?case using iha ihb 2 op_text_facts(1) [of op] by (auto simp: gtoken_def)
qed

lemma tokenize_expression:
  assumes "well_formed e" "\<forall>w\<in>set ws. list_all isspace w"
  shows "tokenizeExpr (spaced ws (tokens_of e)) = tokens_of e"
  using lex_tokens tokens_shape [OF assms(1)] assms(2) by blast

subsection \<open>The value of an arithmetic expression\<close>

text \<open>
  C2. For every expression built from unsigned decimal literals, parentheses and the
  ten binary operators, written with any white space around its tokens: if every
  literal and every intermediate result of the standard evaluation fits a signed 64-bit
  integer, then the evaluation of the text (tokenizer, conversion to postfix, postfix
  evaluation) does not fail and returns the standard value reduced to 32 bits; when the
  standard value fits a signed 32-bit integer the result is that value. The standard
  value is the one of integer arithmetic with the tiers multiplicative, additive,
  comparison, association to the left within a tier, 1 or 0 for a comparison, a quotient
  truncated towards zero, and 0 for a division by zero.
\<close>

theorem expression_value:
  assumes "well_formed e" "in_range e" "\<forall>w\<in>set ws. list_all isspace w"
  shows "evalExpressionString (spaced ws (tokens_of e)) vars boolVars objects
           = Inr (word_of_int (std_value e))
         \<and> (- (2 ^ 31) \<le> std_value e \<and> std_value e < 2 ^ 31 \<longrightarrow>
             (\<exists>r. evalExpressionString (spaced ws (tokens_of e)) vars boolVars objects = Inr r
                  \<and> sint r = std_value e))"
proof -
  have 1: "evalExpressionString (spaced ws (tokens_of e)) vars boolVars objects
           = Inr (word_of_int (std_value e))"
    unfolding evalExpressionString_def tokenize_expression [OF assms(1,3)]
    by (rule evalRPN_tokens [OF assms(1,2)])
  have "sint (word_of_int (std_value e) :: 32 word) = std_value e"
    if "- (2 ^ 31) \<le> std_value e \<and> std_value e < 2 ^ 31"
    using that by (simp add: sint_sbintrunc' signed_take_bit_int_eq_self)
  then show ?thesis using 1 by simp
qed

theorem expression_value_witness:
  "evalExpressionString ''3 + 4 * 2'' Map.empty Map.empty Map.empty = Inr 11
   \<and> evalExpressionString ''(3 + 4) * 2'' Map.empty Map.empty Map.empty = Inr 14
   \<and> evalExpressionString ''5 / 0'' Map.empty Map.empty Map.empty = Inr 0"
proof -
  let ?e1 = "Bin Add (Lit ''3'') (Bin Mul (Lit ''4'') (Lit ''2''))"
  let ?e2 = "Bin Mul (Paren (Bin Add (Lit ''3'') (Lit ''4''))) (Lit ''2'')"
  let ?e3 = "Bin Div (Lit ''5'') (Lit ''0'')"
  have dv: "dec_val ''0'' = 0" "dec_val ''2'' = 2" "dec_val ''3'' = 3" "dec_val ''4'' = 4"
    "dec_val ''5'' = 5"
    by (simp_all add: dec_val_def digit_val_def)
  have dg: "isdigit CHR ''0''" "isdigit CHR ''2''" "isdigit CHR ''3''" "isdigit CHR ''4''"
    "isdigit CHR ''5''"
    by (simp_all add: isdigit_def)
  have sp: "isspace CHR '' ''" by (simp add: isspace_def)
  have wf: "well_formed ?e1" "well_formed ?e2" "well_formed ?e3" using dg by simp_all
  have rg: "in_range ?e1" "in_range ?e2" "in_range ?e3" by (simp_all add: dv fits64_def tdiv_def)
  have ws4: "\<forall>w\<in>set [[], '' '', '' '', '' '', '' '']. list_all isspace w" using sp by simp
  have ws6: "\<forall>w\<in>set [[], [], '' '', '' '', [], '' '', '' '']. list_all isspace w"
    using sp by simp
  have ws2: "\<forall>w\<in>set [[], '' '', '' '']. list_all isspace w" using sp by simp
  have v: "std_value ?e1 = 11" "std_value ?e2 = 14" "std_value ?e3 = 0" by (simp_all add: dv)
  have t: "spaced [[], '' '', '' '', '' '', '' ''] (tokens_of ?e1) = ''3 + 4 * 2''"
    "spaced [[], [], '' '', '' '', [], '' '', '' ''] (tokens_of ?e2) = ''(3 + 4) * 2''"
    "spaced [[], '' '', '' ''] (tokens_of ?e3) = ''5 / 0''"
    by simp_all
  show ?thesis
    using expression_value [OF wf(1) rg(1) ws4, of Map.empty Map.empty Map.empty, THEN conjunct1]
      expression_value [OF wf(2) rg(2) ws6, of Map.empty Map.empty Map.empty, THEN conjunct1]
      expression_value [OF wf(3) rg(3) ws2, of Map.empty Map.empty Map.empty, THEN conjunct1]
    unfolding v t by simp
qed

text \<open>
  C2, the general statement fails. The sum \<open>2147483647 + 1\<close> is 2147483648 in integer
  arithmetic; the evaluator computes it in a \<open>long long\<close> and returns it cast to \<open>int\<close>,
  which is -2147483648.
\<close>

theorem expression_overflow_counterexample:
  "\<exists>r. evalExpressionString ''2147483647 + 1'' Map.empty Map.empty Map.empty = Inr r
       \<and> sint r = - 2147483648
       \<and> std_value (Bin Add (Lit ''2147483647'') (Lit ''1'')) = 2147483648"
proof -
  have "evalExpressionString ''2147483647 + 1'' Map.empty Map.empty Map.empty
      = Inr (word_of_int 2147483648)"
    by (simp add: ev_defs)
  moreover have "sint (word_of_int 2147483648 :: 32 word) = - 2147483648" by simp
  moreover have "std_value (Bin Add (Lit ''2147483647'') (Lit ''1'')) = 2147483648"
    by (simp add: dec_val_def digit_val_def)
  ultimately show ?thesis by simp
qed

section \<open>Properties of the interpreter\<close>

subsection \<open>Decoding the tagged actions\<close>

lemma starts_with_append [simp]: "starts_with p (p @ s)"
  by (simp add: starts_with_def)

lemma eval_skips_leading_space:
  "evalExpressionString (dropWhile isspace expr) vs bs os = evalExpressionString expr vs bs os"
proof -
  have "list_all isspace (takeWhile isspace expr)"
    by (simp add: list_all_iff) (meson set_takeWhileD)
  then have "tokenizeExpr (takeWhile isspace expr @ dropWhile isspace expr)
      = tokenizeExpr (dropWhile isspace expr)"
    by (rule tokenize_space)
  then show ?thesis by (simp add: evalExpressionString_def)
qed

lemma action_name_expr:
  assumes "\<forall>c\<in>set name. \<not> isspace c"
  shows "action_name (name @ '' '' @ expr) = name"
    and "action_expr (name @ '' '' @ expr) = dropWhile isspace expr"
proof -
  have sp: "isspace CHR '' ''" by (simp add: isspace_def)
  have "takeWhile (\<lambda>c. \<not> isspace c) (name @ CHR '' '' # expr) = name"
    using assms sp by (induction name) auto
  then show "action_name (name @ '' '' @ expr) = name" by (simp add: action_name_def)
  have "dropWhile (\<lambda>c. \<not> isspace c) (name @ CHR '' '' # expr) = CHR '' '' # expr"
    using assms sp by (induction name) auto
  then show "action_expr (name @ '' '' @ expr) = dropWhile isspace expr"
    using sp by (simp add: action_expr_def)
qed

lemma set_prefix: "starts_with ''SET '' (''SET '' @ rest)" "drop 4 (''SET '' @ rest) = rest"
  by (simp_all add: starts_with_def)

lemma nodeAction_set:
  assumes "\<forall>c\<in>set name. \<not> isspace c"
  shows "nodeAction (''SET '' @ name @ '' '' @ expr) s =
     (case evalExpressionString expr (r_vars s) (r_boolVars s) (p_objects (r_prog s)) of
        Inl e \<Rightarrow> Thrown e
      | Inr val \<Rightarrow>
         Next (case splitDot name of
            (inst, field) \<Rightarrow>
              if field \<noteq> [] then
                s\<lparr>r_prog := (r_prog s)\<lparr>p_objects :=
                     set_field (p_objects (r_prog s)) inst field val\<rparr>\<rparr>
              else if r_boolVars s name \<noteq> None
                then s\<lparr>r_boolVars := (r_boolVars s)(name \<mapsto> (val \<noteq> 0))\<rparr>
              else s\<lparr>r_vars := (r_vars s)(name \<mapsto> val)\<rparr>))"
proof -
  have 1: "starts_with ''SET '' (''SET '' @ name @ '' '' @ expr)" by (rule set_prefix)
  have 2: "drop 4 (''SET '' @ name @ '' '' @ expr) = name @ '' '' @ expr" by (rule set_prefix)
  show ?thesis
    unfolding nodeAction_def
    by (simp only: 1 2 if_True Let_def action_name_expr [OF assms(1)]
          eval_skips_leading_space)
qed

subsection \<open>Assignment to a field of an object that does not exist\<close>

text \<open>
  C10. \<open>SET obj.field expr\<close>, the action of the node statement \<open>set obj.field = expr;\<close>,
  when the object table has no entry for \<open>obj\<close>. If the evaluation of the expression
  fails, the action fails with it. If the expression has a value, the action does not
  fail, and its only effect is that the object table gets an entry for \<open>obj\<close> which
  holds the field \<open>field\<close> with that value and nothing else: every other entry, the
  table of the classes of the instances, the variables and the output are as before.
\<close>

theorem set_creates_object:
  assumes "CHR ''.'' \<notin> set obj" and "field \<noteq> []"
    and "\<forall>c\<in>set (obj @ ''.'' @ field). \<not> isspace c"
    and "p_objects (r_prog s) obj = None"
  shows "nodeAction (''SET '' @ obj @ ''.'' @ field @ '' '' @ expr) s =
     (case evalExpressionString expr (r_vars s) (r_boolVars s) (p_objects (r_prog s)) of
        Inl e \<Rightarrow> Thrown e
      | Inr val \<Rightarrow>
         Next (s\<lparr>r_prog := (r_prog s)\<lparr>p_objects :=
                   (p_objects (r_prog s))(obj \<mapsto> [field \<mapsto> val])\<rparr>\<rparr>))"
proof -
  have sd: "splitDot (obj @ ''.'' @ field) = (obj, field)"
    using splitDot_dotted [OF assms(1)] by simp
  have sf: "set_field (p_objects (r_prog s)) obj field val
      = (p_objects (r_prog s))(obj \<mapsto> [field \<mapsto> val])" for val
    using assms(4) by (simp add: set_field_def)
  have "nodeAction (''SET '' @ (obj @ ''.'' @ field) @ '' '' @ expr) s =
     (case evalExpressionString expr (r_vars s) (r_boolVars s) (p_objects (r_prog s)) of
        Inl e \<Rightarrow> Thrown e
      | Inr val \<Rightarrow>
         Next (s\<lparr>r_prog := (r_prog s)\<lparr>p_objects :=
                   (p_objects (r_prog s))(obj \<mapsto> [field \<mapsto> val])\<rparr>\<rparr>))"
    unfolding nodeAction_set [OF assms(3)] sd using assms(2) sf
    by (simp split: sum.splits)
  then show ?thesis by simp
qed

theorem set_creates_object_witness:
  "\<exists>s'. nodeAction ''SET ghost.hp 4+1''
            \<lparr>r_prog = empty_prog, r_vars = Map.empty, r_boolVars = Map.empty, r_out = [], r_in = []\<rparr>
          = Next s'
      \<and> p_objects (r_prog s') ''ghost'' = Some [''hp'' \<mapsto> 5]
      \<and> p_objects (r_prog s') ''hero'' = p_objects empty_prog ''hero''
      \<and> p_instanceClass (r_prog s') = p_instanceClass empty_prog"
proof -
  let ?s = "\<lparr>r_prog = empty_prog, r_vars = Map.empty, r_boolVars = Map.empty,
             r_out = [], r_in = []\<rparr>"
  have ev: "evalExpressionString ''4+1'' (r_vars ?s) (r_boolVars ?s) (p_objects (r_prog ?s)) = Inr 5"
    by (simp add: ev_defs)
  have absent: "p_objects (r_prog ?s) ''ghost'' = None" by (simp add: empty_prog_def)
  have h1: "CHR ''.'' \<notin> set ''ghost''" by simp
  have h2: "''hp'' \<noteq> []" by simp
  have h3: "\<forall>c\<in>set (''ghost'' @ ''.'' @ ''hp''). \<not> isspace c" by (simp add: isspace_def)
  have "nodeAction (''SET '' @ ''ghost'' @ ''.'' @ ''hp'' @ '' '' @ ''4+1'') ?s =
      Next (?s\<lparr>r_prog := (r_prog ?s)\<lparr>p_objects :=
                   (p_objects (r_prog ?s))(''ghost'' \<mapsto> [''hp'' \<mapsto> 5])\<rparr>\<rparr>)"
    using set_creates_object [where obj = "''ghost''" and field = "''hp''" and expr = "''4+1''"
        and s = ?s, OF h1 h2 h3 absent]
    by (simp only: ev sum.case)
  then show ?thesis by simp
qed

text \<open>
  C10 as stated fails: the action can fail. A numeric literal beyond the range of
  \<open>long long\<close> in the expression makes \<open>std::stoll\<close> throw, nothing catches it, and no
  entry is created; the run of a script with such a statement ends with the exception.
\<close>

theorem set_can_fail_counterexample:
  "nodeAction ''SET ghost.hp 99999999999999999999''
      \<lparr>r_prog = empty_prog, r_vars = Map.empty, r_boolVars = Map.empty, r_out = [], r_in = []\<rparr>
    = Thrown Out_of_range
   \<and> parsed_actions ''node Start { set ghost.hp = 99999999999999999999; end; }'' ''Start''
    = Some [''SET ghost.hp 99999999999999999999'', ''END'']
   \<and> map_option (map_sum id r_out)
        (runSource 2 ''node Start { set ghost.hp = 99999999999999999999; end; }'' ''Andrew'' [])
    = Some (Inl Out_of_range)"
proof -
  let ?s = "\<lparr>r_prog = empty_prog, r_vars = Map.empty, r_boolVars = Map.empty,
             r_out = [], r_in = []\<rparr>"
  have ev: "evalExpressionString ''99999999999999999999'' (r_vars ?s) (r_boolVars ?s)
      (p_objects (r_prog ?s)) = Inl Out_of_range"
    by (simp add: ev_defs)
  have h: "\<forall>c\<in>set ''ghost.hp''. \<not> isspace c" by (simp add: isspace_def)
  have "nodeAction (''SET '' @ ''ghost.hp'' @ '' '' @ ''99999999999999999999'') ?s
      = Thrown Out_of_range"
    unfolding nodeAction_set [OF h] by (simp only: ev sum.case)
  then have 1: "nodeAction ''SET ghost.hp 99999999999999999999'' ?s = Thrown Out_of_range"
    by simp
  have 2: "parsed_actions ''node Start { set ghost.hp = 99999999999999999999; end; }'' ''Start''
    = Some [''SET ghost.hp 99999999999999999999'', ''END'']"
    by code_simp
  have 3: "map_option (map_sum id r_out)
        (runSource 2 ''node Start { set ghost.hp = 99999999999999999999; end; }'' ''Andrew'' [])
    = Some (Inl Out_of_range)"
    by code_simp
  show ?thesis by (intro conjI) (rule 1, rule 2, rule 3)
qed

subsection \<open>The end of the dialogue\<close>

lemma nodeAction_END:
  "nodeAction ''END'' s = Return (s\<lparr>r_out := r_out s @ ''[Dialogue ended]'' @ nl\<rparr>)"
  by (simp add: nodeAction_def starts_with_def)

lemma nodeActions_END:
  "nodeActions fuel pre playerName s = Some (Inr (Fall, s1)) \<Longrightarrow>
   nodeActions fuel (pre @ ''END'' # rest) playerName s
     = Some (Inr (Ended, s1\<lparr>r_out := r_out s1 @ ''[Dialogue ended]'' @ nl\<rparr>))"
proof (induction pre arbitrary: s)
  case Nil
  then show ?case by (simp add: nodeAction_END)
next
  case (Cons a pre)
  show ?case
  proof (cases "nodeAction a s")
    case (Next s')
    then show ?thesis using Cons by simp
  next
    case (Break target s')
    then show ?thesis using Cons.prems by simp
  next
    case (Return s')
    then show ?thesis using Cons.prems by simp
  next
    case (Thrown e)
    then show ?thesis using Cons.prems by simp
  next
    case (Call inst mname argVals)
    show ?thesis
    proof (cases "executeMethod fuel (r_prog s) inst mname argVals playerName (r_out s)")
      case None
      then show ?thesis using Cons.prems Call by simp
    next
      case (Some r)
      show ?thesis
      proof (cases r)
        case (Inl e)
        then show ?thesis using Cons.prems Call Some by simp
      next
        case (Inr po)
        obtain prog' out' where po: "po = (prog', out')" by (cases po)
        show ?thesis using Cons.prems Call Some Inr po Cons.IH by simp
      qed
    qed
  qed
qed

text \<open>
  C6. A node without choices whose action list has \<open>END\<close> at any position: when the
  actions before it run through to it (none of them jumps, fails, or fails to return),
  the action loop is left at once, whatever follows \<open>END\<close> in the list, and the run
  returns there with the state that these actions have produced and the closing
  message; no further node is visited.
\<close>

theorem end_halts_run:
  assumes "p_nodes (r_prog s) current = Some node" and "n_choices node = []"
    and "n_actions node = pre @ ''END'' # rest"
    and "nodeActions fuel pre playerName (show_text playerName node s) = Some (Inr (Fall, s1))"
  shows "nodeActions fuel (n_actions node) playerName (show_text playerName node s)
           = Some (Inr (Ended, s1\<lparr>r_out := r_out s1 @ ''[Dialogue ended]'' @ nl\<rparr>))
       \<and> runNodes (Suc fuel) current playerName s
           = Some (Inr (s1\<lparr>r_out := r_out s1 @ ''[Dialogue ended]'' @ nl\<rparr>))"
proof -
  have a: "nodeActions fuel (n_actions node) playerName (show_text playerName node s)
           = Some (Inr (Ended, s1\<lparr>r_out := r_out s1 @ ''[Dialogue ended]'' @ nl\<rparr>))"
    unfolding assms(3) by (rule nodeActions_END [OF assms(4)])
  then show ?thesis using assms(1,2) by simp
qed

theorem end_halts_run_witness:
  "\<exists>s'. runNodes 1 ''Start'' ''Bob''
          \<lparr>r_prog = empty_prog\<lparr>p_nodes := [''Start'' \<mapsto>
               \<lparr>n_name = ''Start'', n_text = [], n_choices = [],
                n_actions = [''SET x 1'', ''END'', ''SET x 2'', ''GOTO Start'']\<rparr>]\<rparr>,
           r_vars = Map.empty, r_boolVars = Map.empty, r_out = [], r_in = []\<rparr> = Some (Inr s')
      \<and> r_vars s' ''x'' = Some 1 \<and> r_out s' = ''[Dialogue ended]'' @ nl"
proof -
  let ?node = "\<lparr>n_name = ''Start'', n_text = [], n_choices = [],
                n_actions = [''SET x 1'', ''END'', ''SET x 2'', ''GOTO Start'']\<rparr>"
  let ?s = "\<lparr>r_prog = empty_prog\<lparr>p_nodes := [''Start'' \<mapsto> ?node]\<rparr>,
             r_vars = Map.empty, r_boolVars = Map.empty, r_out = [], r_in = []\<rparr>"
  have st: "show_text ''Bob'' ?node ?s = ?s" by (simp add: show_text_def)
  have ev: "evalExpressionString ''1'' (r_vars ?s) (r_boolVars ?s) (p_objects (r_prog ?s)) = Inr 1"
    by (simp add: ev_defs)
  have ns: "\<forall>c\<in>set ''x''. \<not> isspace c" by (simp add: isspace_def)
  have sd: "splitDot ''x'' = (''x'', [])" by (simp add: splitDot_def)
  have "nodeAction (''SET '' @ ''x'' @ '' '' @ ''1'') ?s = Next (?s\<lparr>r_vars := [''x'' \<mapsto> 1]\<rparr>)"
    unfolding nodeAction_set [OF ns] sd by (simp only: ev sum.case) simp
  then have na: "nodeAction ''SET x 1'' ?s = Next (?s\<lparr>r_vars := [''x'' \<mapsto> 1]\<rparr>)" by simp
  have h4: "nodeActions 0 [''SET x 1''] ''Bob'' (show_text ''Bob'' ?node ?s)
      = Some (Inr (Fall, ?s\<lparr>r_vars := [''x'' \<mapsto> 1]\<rparr>))"
    unfolding st by (simp add: na)
  have h1: "p_nodes (r_prog ?s) ''Start'' = Some ?node" by simp
  have h2: "n_choices ?node = []" by simp
  have h3: "n_actions ?node = [''SET x 1''] @ ''END'' # [''SET x 2'', ''GOTO Start'']" by simp
  have "runNodes (Suc 0) ''Start'' ''Bob'' ?s
      = Some (Inr (?s\<lparr>r_vars := [''x'' \<mapsto> 1]\<rparr>
                    \<lparr>r_out := r_out (?s\<lparr>r_vars := [''x'' \<mapsto> 1]\<rparr>) @ ''[Dialogue ended]'' @ nl\<rparr>))"
    using end_halts_run [OF h1 h2 h3 h4] by (rule conjunct2)
  then show ?thesis by simp
qed


subsection \<open>Nodes with choices\<close>

lemma select_choice_rejected:
  "list_all (rejected cs) bad \<Longrightarrow> find (\<lambda>c. c_id c = sel) cs = Some c \<Longrightarrow>
   select_choice cs (bad @ Some sel # rest) out
     = Some (c_target c, rest, out @ reprompts bad @ ''Choose: '')"
proof (induction bad arbitrary: out)
  case Nil
  then show ?case by simp
next
  case (Cons x bad)
  show ?case
  proof (cases x)
    case None
    then show ?thesis using Cons by simp
  next
    case (Some v)
    then show ?thesis using Cons by (simp add: rejected_def)
  qed
qed

lemma select_choice_starved:
  "list_all (rejected cs) bad \<Longrightarrow> select_choice cs bad out = None"
proof (induction bad arbitrary: out)
  case Nil
  then show ?case by simp
next
  case (Cons x bad)
  show ?case
  proof (cases x)
    case None
    then show ?thesis using Cons by simp
  next
    case (Some v)
    then show ?thesis using Cons by (simp add: rejected_def)
  qed
qed

lemma show_text_frame:
  "r_prog (show_text playerName node s) = r_prog s"
  "r_vars (show_text playerName node s) = r_vars s"
  "r_boolVars (show_text playerName node s) = r_boolVars s"
  "r_in (show_text playerName node s) = r_in s"
  by (simp_all add: show_text_def)

text \<open>
  C5. A node that has at least one choice. The node writes its text and its choices;
  then, for any sequence of extractions that are not the id of one of its choices
  (however long), each of them is answered by a new prompt, and the first extraction
  that is the id of a choice makes the run go on at the target of the first choice with
  that id. The state with which the run goes on has the program and the variables of
  the state in which the node was entered, and its output holds nothing but the text,
  the choices and the prompts: the actions of the node are not executed, whatever
  they are. When the input ends before a valid id, the run does not return.
\<close>

theorem choices_preempt_actions:
  assumes "p_nodes (r_prog s) current = Some node" and "n_choices node \<noteq> []"
    and "list_all (rejected (n_choices node)) bad"
  shows "(find (\<lambda>c. c_id c = sel) (n_choices node) = Some c \<and> r_in s = bad @ Some sel # rest \<longrightarrow>
            runNodes (Suc fuel) current playerName s
              = runNodes fuel (c_target c) playerName
                  \<lparr>r_prog = r_prog s, r_vars = r_vars s, r_boolVars = r_boolVars s,
                   r_out = r_out (show_text playerName node s)
                             @ render_choices playerName (n_choices node)
                             @ reprompts bad @ ''Choose: '',
                   r_in = rest\<rparr>)
       \<and> (r_in s = bad \<longrightarrow> runNodes (Suc fuel) current playerName s = None)"
proof (intro conjI impI)
  assume "find (\<lambda>c. c_id c = sel) (n_choices node) = Some c \<and> r_in s = bad @ Some sel # rest"
  then have f: "find (\<lambda>c. c_id c = sel) (n_choices node) = Some c"
    and i: "r_in (show_text playerName node s) = bad @ Some sel # rest"
    by (simp_all add: show_text_frame)
  have eq: "(show_text playerName node s)\<lparr>r_out := out, r_in := rest\<rparr>
      = \<lparr>r_prog = r_prog s, r_vars = r_vars s, r_boolVars = r_boolVars s,
         r_out = out, r_in = rest\<rparr>" for out
    by (simp add: show_text_def)
  show "runNodes (Suc fuel) current playerName s
      = runNodes fuel (c_target c) playerName
          \<lparr>r_prog = r_prog s, r_vars = r_vars s, r_boolVars = r_boolVars s,
           r_out = r_out (show_text playerName node s)
                     @ render_choices playerName (n_choices node)
                     @ reprompts bad @ ''Choose: '',
           r_in = rest\<rparr>"
    using assms(1,2) select_choice_rejected [OF assms(3) f] i eq by simp
next
  assume "r_in s = bad"
  then have "r_in (show_text playerName node s) = bad" by (simp add: show_text_frame)
  then show "runNodes (Suc fuel) current playerName s = None"
    using assms(1,2) select_choice_starved [OF assms(3)] by simp
qed

theorem choices_preempt_actions_witness:
  "runNodes 2 ''Start'' ''Bob''
      \<lparr>r_prog = empty_prog\<lparr>p_nodes := [''Start'' \<mapsto>
           \<lparr>n_name = ''Start'', n_text = ''Hi [@You]'',
            n_choices = [\<lparr>c_id = 1, c_text = ''A'', c_target = ''NodeA''\<rparr>,
                         \<lparr>c_id = 2, c_text = ''B'', c_target = ''NodeB''\<rparr>],
            n_actions = [''SET x 1'', ''GOTO Start'']\<rparr>]\<rparr>,
       r_vars = Map.empty, r_boolVars = Map.empty, r_out = [], r_in = [None, Some 7, Some 2]\<rparr>
   = Some (Inr
      \<lparr>r_prog = empty_prog\<lparr>p_nodes := [''Start'' \<mapsto>
           \<lparr>n_name = ''Start'', n_text = ''Hi [@You]'',
            n_choices = [\<lparr>c_id = 1, c_text = ''A'', c_target = ''NodeA''\<rparr>,
                         \<lparr>c_id = 2, c_text = ''B'', c_target = ''NodeB''\<rparr>],
            n_actions = [''SET x 1'', ''GOTO Start'']\<rparr>]\<rparr>,
       r_vars = Map.empty, r_boolVars = Map.empty,
       r_out = ''Hi [Bob]'' @ nl @ ''[1] A'' @ nl @ ''[2] B'' @ nl @ ''Choose: Invalid'' @ nl
               @ ''Choose: Invalid choice'' @ nl @ ''Choose: '',
       r_in = []\<rparr>)"
proof -
  let ?cs = "[\<lparr>c_id = 1, c_text = ''A'', c_target = ''NodeA''\<rparr>,
              \<lparr>c_id = 2 :: int32, c_text = ''B'', c_target = ''NodeB''\<rparr>]"
  let ?node = "\<lparr>n_name = ''Start'', n_text = ''Hi [@You]'', n_choices = ?cs,
                n_actions = [''SET x 1'', ''GOTO Start'']\<rparr>"
  let ?p = "empty_prog\<lparr>p_nodes := [''Start'' \<mapsto> ?node]\<rparr>"
  let ?s = "\<lparr>r_prog = ?p, r_vars = Map.empty, r_boolVars = Map.empty, r_out = [],
             r_in = [None, Some 7, Some 2]\<rparr>"
  have h1: "p_nodes (r_prog ?s) ''Start'' = Some ?node" by simp
  have h2: "n_choices ?node \<noteq> []" by simp
  have h3: "list_all (rejected (n_choices ?node)) [None, Some 7]" by (simp add: rejected_def)
  have h4: "find (\<lambda>c. c_id c = 2) (n_choices ?node) = Some \<lparr>c_id = 2, c_text = ''B'', c_target = ''NodeB''\<rparr>
      \<and> r_in ?s = [None, Some 7] @ Some 2 # []"
    by simp
  have out: "r_out (show_text ''Bob'' ?node ?s) = ''Hi [Bob]'' @ nl"
    by code_simp
  have rc: "render_choices ''Bob'' (n_choices ?node) = ''[1] A'' @ nl @ ''[2] B'' @ nl"
    by code_simp
  have nb: "p_nodes ?p ''NodeB'' = None" by simp
  have "runNodes (Suc (Suc 0)) ''Start'' ''Bob'' ?s
      = runNodes (Suc 0) (c_target \<lparr>c_id = 2 :: int32, c_text = ''B'', c_target = ''NodeB''\<rparr>) ''Bob''
          \<lparr>r_prog = r_prog ?s, r_vars = r_vars ?s, r_boolVars = r_boolVars ?s,
           r_out = r_out (show_text ''Bob'' ?node ?s) @ render_choices ''Bob'' (n_choices ?node)
                     @ reprompts [None, Some 7] @ ''Choose: '',
           r_in = []\<rparr>"
    using choices_preempt_actions [OF h1 h2 h3, THEN conjunct1] h4 by (rule mp)
  then have "runNodes (Suc (Suc 0)) ''Start'' ''Bob'' ?s
      = runNodes (Suc 0) ''NodeB'' ''Bob''
          \<lparr>r_prog = ?p, r_vars = Map.empty, r_boolVars = Map.empty,
           r_out = ''Hi [Bob]'' @ nl @ ''[1] A'' @ nl @ ''[2] B'' @ nl @ ''Choose: Invalid'' @ nl
               @ ''Choose: Invalid choice'' @ nl @ ''Choose: '',
           r_in = []\<rparr>"
    unfolding out rc by simp
  also have "\<dots> = Some (Inr \<lparr>r_prog = ?p, r_vars = Map.empty, r_boolVars = Map.empty,
           r_out = ''Hi [Bob]'' @ nl @ ''[1] A'' @ nl @ ''[2] B'' @ nl @ ''Choose: Invalid'' @ nl
               @ ''Choose: Invalid choice'' @ nl @ ''Choose: '',
           r_in = []\<rparr>)"
    using nb by simp
  finally show ?thesis by (simp only: numeral_2_eq_2)
qed

subsection \<open>The print statement\<close>








subsection \<open>What a later operation reads back\<close>








subsection \<open>Method bodies\<close>

text \<open>
  C1, at a script for which it fails. The class \<open>Hero\<close> has the field \<open>health\<close> with the
  value 10 and the method \<open>attack(amount)\<close> with the body \<open>set health = health - amount;\<close>,
  and the node calls \<open>hero.attack(3)\<close>. The parser stores the statement of the body as
  the raw text \<open>STMT sethealth=health-amount\<close> (the token texts, without separators),
  which the execution of a method neither reads as an assignment nor as anything else.
  The call is made, the run ends regularly, and \<open>hero.health\<close> is still 10, not 7.
\<close>

theorem method_body_not_executed:
  "parsed_method
      ''class Hero { int health = 10; void attack(amount) { set health = health - amount; } } new Hero hero; node Start { hero.attack(3); end; }''
      ''Hero'' ''attack''
     = Some [''STMT sethealth=health-amount'']
   \<and> parsed_actions
      ''class Hero { int health = 10; void attack(amount) { set health = health - amount; } } new Hero hero; node Start { hero.attack(3); end; }''
      ''Start''
     = Some [''STMT hero.attack(3)'', ''END'']
   \<and> final_field (runSource 2
      ''class Hero { int health = 10; void attack(amount) { set health = health - amount; } } new Hero hero; node Start { hero.attack(3); end; }''
      ''Andrew'' []) ''hero'' ''health''
     = Some 10
   \<and> final_out (runSource 2
      ''class Hero { int health = 10; void attack(amount) { set health = health - amount; } } new Hero hero; node Start { hero.attack(3); end; }''
      ''Andrew'' [])
     = Some (''[Dialogue ended]'' @ nl)"
proof -
  have 1: "parsed_method
      ''class Hero { int health = 10; void attack(amount) { set health = health - amount; } } new Hero hero; node Start { hero.attack(3); end; }''
      ''Hero'' ''attack''
     = Some [''STMT sethealth=health-amount'']"
    by code_simp
  have 2: "parsed_actions
      ''class Hero { int health = 10; void attack(amount) { set health = health - amount; } } new Hero hero; node Start { hero.attack(3); end; }''
      ''Start''
     = Some [''STMT hero.attack(3)'', ''END'']"
    by code_simp
  have 3: "final_field (runSource 2
      ''class Hero { int health = 10; void attack(amount) { set health = health - amount; } } new Hero hero; node Start { hero.attack(3); end; }''
      ''Andrew'' []) ''hero'' ''health''
     = Some 10"
    by code_simp
  have 4: "final_out (runSource 2
      ''class Hero { int health = 10; void attack(amount) { set health = health - amount; } } new Hero hero; node Start { hero.attack(3); end; }''
      ''Andrew'' [])
     = Some (''[Dialogue ended]'' @ nl)"
    by code_simp
  show ?thesis by (intro conjI) (rule 1, rule 2, rule 3, rule 4)
qed

subsection \<open>Conditions with parentheses\<close>

text \<open>
  C4, at a script for which it fails. With \<open>hp = 5\<close> the condition
  \<open>(hp + 1) * 2 <= 0\<close> is false, so the statement
  \<open>if ((hp + 1) * 2 <= 0) goto Dead else goto Alive;\<close> should lead to \<open>Alive\<close>. The parser
  takes the condition to end at the first closing parenthesis, finds no \<open>goto\<close> there
  and stores no \<open>IF\<close> action at all; scanning on, it stores the unconditional action
  \<open>GOTO Dead\<close>. The run goes to \<open>Dead\<close>. The statement of the claim with the condition
  \<open>hp <= 0\<close>, which has no parenthesis, leads to \<open>Alive\<close> for \<open>hp = 5\<close> and to \<open>Dead\<close>
  for \<open>hp = 0\<close>.
\<close>

theorem parenthesised_condition_misparsed:
  "parsed_actions
      ''int hp = 5; node Start { if ((hp + 1) * 2 <= 0) goto Dead else goto Alive; } node Dead { line \"dead\"; end; } node Alive { line \"alive\"; end; }''
      ''Start''
     = Some [''GOTO Dead'', ''STMT elsegotoAlive'']
   \<and> final_out (runSource 3
      ''int hp = 5; node Start { if ((hp + 1) * 2 <= 0) goto Dead else goto Alive; } node Dead { line \"dead\"; end; } node Alive { line \"alive\"; end; }''
      ''Andrew'' [])
     = Some (''dead'' @ nl @ ''[Dialogue ended]'' @ nl)
   \<and> evalExpressionString ''(hp + 1) * 2 <= 0'' [''hp'' \<mapsto> 5] Map.empty Map.empty = Inr 0
   \<and> parsed_actions
      ''int hp = 5; node Start { if (hp <= 0) goto Dead else goto Alive; } node Dead { line \"dead\"; end; } node Alive { line \"alive\"; end; }''
      ''Start''
     = Some [''IF hp<=0 GOTO Dead ELSE Alive'']
   \<and> final_out (runSource 3
      ''int hp = 5; node Start { if (hp <= 0) goto Dead else goto Alive; } node Dead { line \"dead\"; end; } node Alive { line \"alive\"; end; }''
      ''Andrew'' [])
     = Some (''alive'' @ nl @ ''[Dialogue ended]'' @ nl)
   \<and> final_out (runSource 3
      ''int hp = 0; node Start { if (hp <= 0) goto Dead else goto Alive; } node Dead { line \"dead\"; end; } node Alive { line \"alive\"; end; }''
      ''Andrew'' [])
     = Some (''dead'' @ nl @ ''[Dialogue ended]'' @ nl)"
proof -
  have 1: "parsed_actions
      ''int hp = 5; node Start { if ((hp + 1) * 2 <= 0) goto Dead else goto Alive; } node Dead { line \"dead\"; end; } node Alive { line \"alive\"; end; }''
      ''Start''
     = Some [''GOTO Dead'', ''STMT elsegotoAlive'']"
    by code_simp
  have 2: "final_out (runSource 3
      ''int hp = 5; node Start { if ((hp + 1) * 2 <= 0) goto Dead else goto Alive; } node Dead { line \"dead\"; end; } node Alive { line \"alive\"; end; }''
      ''Andrew'' [])
     = Some (''dead'' @ nl @ ''[Dialogue ended]'' @ nl)"
    by code_simp
  have 3: "evalExpressionString ''(hp + 1) * 2 <= 0'' [''hp'' \<mapsto> 5] Map.empty Map.empty = Inr 0"
    by (simp add: ev_defs)
  have 4: "parsed_actions
      ''int hp = 5; node Start { if (hp <= 0) goto Dead else goto Alive; } node Dead { line \"dead\"; end; } node Alive { line \"alive\"; end; }''
      ''Start''
     = Some [''IF hp<=0 GOTO Dead ELSE Alive'']"
    by code_simp
  have 5: "final_out (runSource 3
      ''int hp = 5; node Start { if (hp <= 0) goto Dead else goto Alive; } node Dead { line \"dead\"; end; } node Alive { line \"alive\"; end; }''
      ''Andrew'' [])
     = Some (''alive'' @ nl @ ''[Dialogue ended]'' @ nl)"
    by code_simp
  have 6: "final_out (runSource 3
      ''int hp = 0; node Start { if (hp <= 0) goto Dead else goto Alive; } node Dead { line \"dead\"; end; } node Alive { line \"alive\"; end; }''
      ''Andrew'' [])
     = Some (''dead'' @ nl @ ''[Dialogue ended]'' @ nl)"
    by code_simp
  show ?thesis by (intro conjI) (rule 1, rule 2, rule 3, rule 4, rule 5, rule 6)
qed

end
